theory Spec2Isabelle
  imports Complex_Main "HOL-Library.Sublist" "HOL-Library.Word" "HOL-Library.Log_Nat"
begin

section \<open>JavaScript strings\<close>

text \<open>
  A JavaScript string is a sequence of UTF-16 code units and \<open>length\<close> counts them; a
  character beyond U+FFFF takes two. The white space of \<open>\s\<close> and of \<open>trim\<close>, the line
  terminators and the ASCII classes are those of the language. \<open>\p{L}\<close>, \<open>\p{N}\<close> and
  \<open>toLowerCase\<close> follow the Unicode tables below U+0100; a code unit from U+0100 on is
  taken as neither a letter nor a number and as its own lower case, which is what the
  tables say of punctuation, symbols and emoji such as the bullet U+2022.
\<close>

type_synonym codeunit = "16 word"
type_synonym jsstring = "codeunit list"

definition str :: "string \<Rightarrow> jsstring" where
  \<comment> \<open>a string literal of the source, of ASCII characters\<close>
  "str s = map of_char s"

abbreviation LF :: codeunit where "LF \<equiv> 0x0A"
abbreviation CR :: codeunit where "CR \<equiv> 0x0D"

definition isSpace :: "codeunit \<Rightarrow> bool" where
  \<comment> \<open>the regex class \<open>\s\<close>, also what \<open>trim\<close> strips: the white space and the line
      terminators of ECMAScript\<close>
  "isSpace c = ((0x09 \<le> c \<and> c \<le> 0x0D) \<or> c = 0x20 \<or> c = 0xA0 \<or> c = 0x1680 \<or>
     (0x2000 \<le> c \<and> c \<le> 0x200A) \<or> c = 0x2028 \<or> c = 0x2029 \<or> c = 0x202F \<or>
     c = 0x205F \<or> c = 0x3000 \<or> c = 0xFEFF)"

definition isLineTerminator :: "codeunit \<Rightarrow> bool" where
  \<comment> \<open>what the regex \<open>.\<close> refuses and what \<open>^\<close> looks behind for under the \<open>m\<close> flag\<close>
  "isLineTerminator c = (c = LF \<or> c = CR \<or> c = 0x2028 \<or> c = 0x2029)"

definition isDigit :: "codeunit \<Rightarrow> bool" where
  "isDigit c = (0x30 \<le> c \<and> c \<le> 0x39)"

definition isUpperAZ :: "codeunit \<Rightarrow> bool" where
  "isUpperAZ c = (0x41 \<le> c \<and> c \<le> 0x5A)"

definition isLowerAZ :: "codeunit \<Rightarrow> bool" where
  "isLowerAZ c = (0x61 \<le> c \<and> c \<le> 0x7A)"

definition isLetter :: "codeunit \<Rightarrow> bool" where
  \<comment> \<open>\<open>\p{L}\<close>\<close>
  "isLetter c =
     (isUpperAZ c \<or> isLowerAZ c \<or> c = 0xAA \<or> c = 0xB5 \<or> c = 0xBA \<or>
      (0xC0 \<le> c \<and> c \<le> 0xD6) \<or> (0xD8 \<le> c \<and> c \<le> 0xF6) \<or> (0xF8 \<le> c \<and> c \<le> 0xFF))"

definition isNumber :: "codeunit \<Rightarrow> bool" where
  \<comment> \<open>\<open>\p{N}\<close>\<close>
  "isNumber c =
     (isDigit c \<or> c = 0xB2 \<or> c = 0xB3 \<or> c = 0xB9 \<or> (0xBC \<le> c \<and> c \<le> 0xBE))"

definition toLowerChar :: "codeunit \<Rightarrow> codeunit" where
  "toLowerChar c =
     (if isUpperAZ c \<or> (0xC0 \<le> c \<and> c \<le> 0xDE \<and> c \<noteq> 0xD7) then c + 0x20 else c)"

definition toLowerCase :: "jsstring \<Rightarrow> jsstring" where
  "toLowerCase s = map toLowerChar s"

definition trimStart :: "jsstring \<Rightarrow> jsstring" where
  "trimStart s = dropWhile isSpace s"

definition trimEnd :: "jsstring \<Rightarrow> jsstring" where
  "trimEnd s = rev (dropWhile isSpace (rev s))"

definition trim :: "jsstring \<Rightarrow> jsstring" where
  "trim s = trimStart (trimEnd s)"

definition str_includes :: "jsstring \<Rightarrow> jsstring \<Rightarrow> bool" where
  \<comment> \<open>\<open>s.includes(t)\<close>\<close>
  "str_includes s t = sublist t s"

fun splitOn :: "codeunit \<Rightarrow> jsstring \<Rightarrow> jsstring list" where
  \<comment> \<open>\<open>s.split(c)\<close> for a one-character separator; the empty string gives one empty piece\<close>
  "splitOn c [] = [[]]"
| "splitOn c (x # xs) =
     (if x = c then [] # splitOn c xs
      else (case splitOn c xs of [] \<Rightarrow> [[x]] | l # ls \<Rightarrow> (x # l) # ls))"

fun joinWith :: "jsstring \<Rightarrow> jsstring list \<Rightarrow> jsstring" where
  "joinWith sep [] = []"
| "joinWith sep [x] = x"
| "joinWith sep (x # y # ys) = x @ sep @ joinWith sep (y # ys)"

fun replaceCRLF :: "jsstring \<Rightarrow> jsstring" where
  \<comment> \<open>\<open>md.replace(/\r\n/g, "\n")\<close>\<close>
  "replaceCRLF (a # b # s) =
     (if a = CR \<and> b = LF then LF # replaceCRLF s else a # replaceCRLF (b # s))"
| "replaceCRLF s = s"

subsection \<open>Counting the matches of a global regular expression\<close>

text \<open>
  \<open>s.match(/re/g)\<close> scans from the left: where the expression matches, the match is
  counted and the scan resumes behind it, elsewhere it moves one character on. A matcher
  gives the length of the match at the head of its argument. \<open>bol\<close> says that the
  position is one where \<open>^\<close> holds under the \<open>m\<close> flag: the start of the string or
  the position behind a line terminator.
\<close>

function countMatches :: "(jsstring \<Rightarrow> nat option) \<Rightarrow> jsstring \<Rightarrow> nat" where
  "countMatches m [] = 0"
| "countMatches m (c # cs) =
     (case m (c # cs) of
        Some (Suc n) \<Rightarrow> Suc (countMatches m (drop n cs))
      | _ \<Rightarrow> countMatches m cs)"
  by pat_completeness auto
termination
  by (relation "measure (\<lambda>(m, s). length s)") auto

function countAnchored :: "(jsstring \<Rightarrow> nat option) \<Rightarrow> bool \<Rightarrow> jsstring \<Rightarrow> nat" where
  "countAnchored m bol [] = 0"
| "countAnchored m bol (c # cs) =
     (case (if bol then m (c # cs) else None) of
        Some (Suc n) \<Rightarrow> Suc (countAnchored m (isLineTerminator ((c # cs) ! n)) (drop n cs))
      | _ \<Rightarrow> countAnchored m (isLineTerminator c) cs)"
  by pat_completeness auto
termination
  by (relation "measure (\<lambda>(m, b, s). length s)") auto

definition spanLen :: "(codeunit \<Rightarrow> bool) \<Rightarrow> jsstring \<Rightarrow> nat" where
  "spanLen P s = length (takeWhile P s)"

definition matchBullet :: "codeunit list \<Rightarrow> jsstring \<Rightarrow> nat option" where
  \<comment> \<open>\<open>\s*[marks]\s+\<close>\<close>
  "matchBullet marks s =
     (let a = spanLen isSpace s; r = drop a s in
      case r of [] \<Rightarrow> None
      | c # r' \<Rightarrow> if c \<in> set marks \<and> spanLen isSpace r' > 0
                  then Some (a + 1 + spanLen isSpace r') else None)"

definition matchNumbered :: "jsstring \<Rightarrow> nat option" where
  \<comment> \<open>\<open>\s*\d+\.\s+\<close>\<close>
  "matchNumbered s =
     (let a = spanLen isSpace s; r = drop a s; d = spanLen isDigit r; r' = drop d r in
      case r' of [] \<Rightarrow> None
      | c # r'' \<Rightarrow> if d > 0 \<and> c = of_char CHR ''.'' \<and> spanLen isSpace r'' > 0
                   then Some (a + d + 1 + spanLen isSpace r'') else None)"

definition matchListMarker :: "jsstring \<Rightarrow> nat option" where
  \<comment> \<open>\<open>(\s*[-*+]|\s*\d+\.)\s+\<close>\<close>
  "matchListMarker s =
     (case matchBullet [of_char CHR ''-'', of_char CHR ''*'', of_char CHR ''+''] s of
        Some n \<Rightarrow> Some n
      | None \<Rightarrow> matchNumbered s)"

definition matchQuote :: "jsstring \<Rightarrow> nat option" where
  \<comment> \<open>\<open>\s*>\<close>\<close>
  "matchQuote s =
     (let a = spanLen isSpace s in
      case drop a s of [] \<Rightarrow> None
      | c # _ \<Rightarrow> if c = of_char CHR ''>'' then Some (a + 1) else None)"

definition matchCapitalized :: "jsstring \<Rightarrow> nat option" where
  \<comment> \<open>\<open>[A-Z][a-z]+\<close>\<close>
  "matchCapitalized s =
     (case s of [] \<Rightarrow> None
      | c # r \<Rightarrow> if isUpperAZ c \<and> spanLen isLowerAZ r > 0
                 then Some (1 + spanLen isLowerAZ r) else None)"

definition notStar :: "codeunit \<Rightarrow> bool" where
  "notStar c = (c \<noteq> of_char CHR ''*'')"

definition matchStars :: "nat \<Rightarrow> jsstring \<Rightarrow> nat option" where
  \<comment> \<open>\<open>k\<close> stars, \<open>[^*]+\<close>, \<open>k\<close> stars\<close>
  "matchStars k s =
     (let b = spanLen notStar (drop k s) in
      if take k s = replicate k (of_char CHR ''*'') \<and> b > 0 \<and>
         take k (drop (k + b) s) = replicate k (of_char CHR ''*'')
      then Some (k + b + k) else None)"

definition matchEmphasized :: "jsstring \<Rightarrow> nat option" where
  \<comment> \<open>\<open>\*\*[^*]+\*\*|\*[^*]+\*\<close>\<close>
  "matchEmphasized s =
     (case matchStars 2 s of Some n \<Rightarrow> Some n | None \<Rightarrow> matchStars 1 s)"


section \<open>The chunker (chunker.ts)\<close>

text \<open>
  JavaScript numbers are modelled as exact rationals: the constants of the source
  (0.03, 0.15, ...) are rationals and \<open>+\<close>, \<open>*\<close>, \<open>/\<close>, \<open>Math.floor\<close>, \<open>Math.ceil\<close>,
  \<open>Math.min\<close> and \<open>Math.max\<close> stay within them. The rounding of IEEE doubles is not modelled.
\<close>

definition estimateTokens :: "jsstring \<Rightarrow> nat" where
  "estimateTokens s =
     (let approx = \<lceil>rat_of_nat (length s) / 4\<rceil>;
          tableBonus = rat_of_nat (length (filter (\<lambda>c. c = of_char CHR ''|'') s)) * (3 / 100);
          listBonus = rat_of_nat (countAnchored matchListMarker True s) * (5 / 100)
      in nat (max 1 \<lfloor>rat_of_int approx * (1 + tableBonus + listBonus)\<rfloor>))"

datatype content_type = Narrative | List | Quote | Mixed

text \<open>
  The bullet class of \<open>analyzeContent\<close> is \<open>[-*+\<bullet>]\<close>, with the bullet U+2022.
\<close>

definition analyzeContent :: "jsstring \<Rightarrow> content_type \<times> rat" where
  "analyzeContent text =
     (let listLines = countAnchored (matchBullet [of_char CHR ''-'', of_char CHR ''*'', of_char CHR ''+'', 0x2022]) True text;
          numberedLines = countAnchored matchNumbered True text;
          quoteLines = countAnchored matchQuote True text;
          totalLines = length (splitOn LF text);
          listRatio = rat_of_nat (listLines + numberedLines) / rat_of_nat totalLines;
          quoteRatio = rat_of_nat quoteLines / rat_of_nat totalLines;
          type = (if quoteRatio > 5 / 10 then Quote
                  else if listRatio > 4 / 10 then List
                  else if listRatio > 1 / 10 \<or> quoteRatio > 1 / 10 then Mixed
                  else Narrative);
          importance0 = 5 / 10;
          properNouns = countMatches matchCapitalized text;
          importance1 = importance0 + min (3 / 10) (rat_of_nat properNouns * (2 / 100));
          emphasized = countMatches matchEmphasized text;
          importance2 = importance1 + min (2 / 10) (rat_of_nat emphasized * (5 / 100));
          importance3 = (if quoteRatio > 2 / 10 then importance2 + 15 / 100 else importance2);
          importance4 = (if listRatio > 3 / 10 then importance3 + 1 / 10 else importance3);
          importance5 = (if length text < 100 then importance4 - 2 / 10 else importance4)
      in (type, max (1 / 10) (min 1 importance5)))"

fun collapseNewlines :: "nat \<Rightarrow> jsstring \<Rightarrow> jsstring" where
  \<comment> \<open>\<open>s.replace(/\n{3,}/g, "\n\n")\<close>; \<open>n\<close> counts the line feeds of the run read so far,
      and a run keeps its first two\<close>
  "collapseNewlines n [] = []"
| "collapseNewlines n (c # cs) =
     (if c = LF then (if n < 2 then LF # collapseNewlines (Suc n) cs
                      else collapseNewlines (Suc n) cs)
      else c # collapseNewlines 0 cs)"

definition normalizeBlock :: "jsstring \<Rightarrow> jsstring" where
  "normalizeBlock s = collapseNewlines 0 (trimStart (trimEnd s))"

subsection \<open>slugify\<close>

fun scanParen :: "jsstring \<Rightarrow> nat option" where
  \<comment> \<open>\<open>.*?\)\<close>: the length matched, up to the first closing parenthesis\<close>
  "scanParen [] = None"
| "scanParen (c # cs) =
     (if c = of_char CHR '')'' then Some 1
      else if isLineTerminator c then None
      else map_option Suc (scanParen cs))"

fun scanBracket :: "jsstring \<Rightarrow> (jsstring \<times> nat) option" where
  \<comment> \<open>\<open>.*?\]\(.*?\)\<close>: the text before \<open>](\<close> and the length matched\<close>
  "scanBracket [] = None"
| "scanBracket (c # cs) =
     (case (if c = of_char CHR '']'' \<and> take 1 cs = str ''('' then scanParen (drop 1 cs) else None) of
        Some n \<Rightarrow> Some ([], n + 2)
      | None \<Rightarrow> if isLineTerminator c then None
                else map_option (\<lambda>(inner, n). (c # inner, Suc n)) (scanBracket cs))"

definition matchLink :: "jsstring \<Rightarrow> (jsstring \<times> nat) option" where
  \<comment> \<open>\<open>!?\[.*?\]\(.*?\)\<close> at the head of \<open>s\<close>: the visible text, which is what the
      replacer \<open>m.replace(/^!?\[|\]\(.*\)$/g, "")\<close> leaves of the match, and the length matched\<close>
  "matchLink s =
     (let p = (if take 2 s = str ''!['' then 2 else if take 1 s = str ''['' then 1 else 0) in
      if p = 0 then None
      else map_option (\<lambda>(inner, n). (inner, p + n)) (scanBracket (drop p s)))"

function resolveLinks :: "jsstring \<Rightarrow> jsstring" where
  "resolveLinks [] = []"
| "resolveLinks (c # cs) =
     (case matchLink (c # cs) of
        Some (inner, Suc n) \<Rightarrow> inner @ resolveLinks (drop n cs)
      | _ \<Rightarrow> c # resolveLinks cs)"
  by pat_completeness auto
termination
  by (relation "measure length") auto

fun collapseRuns :: "(codeunit \<Rightarrow> bool) \<Rightarrow> bool \<Rightarrow> jsstring \<Rightarrow> jsstring" where
  \<comment> \<open>\<open>s.replace(/[class]+/g, "-")\<close>; the flag says that the run has been replaced already\<close>
  "collapseRuns P inRun [] = []"
| "collapseRuns P inRun (c # cs) =
     (if P c then (if inRun then collapseRuns P True cs else of_char CHR ''-'' # collapseRuns P True cs)
      else c # collapseRuns P False cs)"

definition isDashOrSlash :: "codeunit \<Rightarrow> bool" where
  "isDashOrSlash c = (c = of_char CHR ''-'' \<or> c = of_char CHR ''/'')"

definition slugify :: "jsstring \<Rightarrow> jsstring" where
  "slugify raw =
     (let s1 = trim raw;
          s2 = filter (\<lambda>c. c \<notin> set (str ''*_`~'')) s1;
          s3 = resolveLinks s2;
          s4 = dropWhile (\<lambda>c. \<not> (isLetter c \<or> isNumber c)) s3;
          s5 = filter (\<lambda>c. isLetter c \<or> isNumber c \<or> isSpace c \<or> c \<in> set (str ''/:-'')) s4;
          s6 = toLowerCase s5;
          s7 = collapseRuns isSpace False s6;
          s8 = collapseRuns (\<lambda>c. c = of_char CHR ''-'') False s7;
          s9 = rev (dropWhile isDashOrSlash (rev (dropWhile isDashOrSlash s8)))
      in if s9 = [] then str ''section'' else s9)"

subsection \<open>splitSectionBySize\<close>

record SplitOptions =
  maxTokens :: nat
  overlapRatio :: rat

definition DEFAULTS :: SplitOptions where
  "DEFAULTS = \<lparr>maxTokens = 400, overlapRatio = 15 / 100\<rparr>"

text \<open>The options as a caller gives them: each may be left out.\<close>

record Options =
  optMaxTokens :: "nat option"
  optOverlapRatio :: "rat option"

definition withDefaults :: "Options \<Rightarrow> SplitOptions" where
  \<comment> \<open>\<open>{ ...DEFAULTS, ...options }\<close>\<close>
  "withDefaults options =
     \<lparr>maxTokens = (case optMaxTokens options of None \<Rightarrow> maxTokens DEFAULTS | Some n \<Rightarrow> n),
      overlapRatio = (case optOverlapRatio options of None \<Rightarrow> overlapRatio DEFAULTS | Some r \<Rightarrow> r)\<rparr>"

function splitParas :: "jsstring \<Rightarrow> jsstring list" where
  \<comment> \<open>\<open>text.split(/\n{2,}/)\<close>: a separator is a maximal run of two or more line feeds\<close>
  "splitParas [] = [[]]"
| "splitParas (c # cs) =
     (if c = LF \<and> take 1 cs = [LF] then [] # splitParas (dropWhile (\<lambda>x. x = LF) cs)
      else (case splitParas cs of [] \<Rightarrow> [[c]] | l # ls \<Rightarrow> (c # l) # ls))"
  by pat_completeness auto
termination
  by (relation "measure length") (auto intro: le_imp_less_Suc length_dropWhile_le)

record SplitState =
  out :: "jsstring list"
  buf :: "jsstring list"
  tokens :: nat

definition commit :: "SplitState \<Rightarrow> SplitState" where
  "commit st =
     (if buf st = [] then st
      else st\<lparr>out := out st @ [normalizeBlock (joinWith [LF, LF] (buf st))], buf := [], tokens := 0\<rparr>)"

definition overlapText :: "rat \<Rightarrow> jsstring \<Rightarrow> jsstring" where
  \<comment> \<open>\<open>committed.slice(Math.max(0, committed.length - overlapChars))\<close>\<close>
  "overlapText r committed =
     (let overlapChars = \<lfloor>rat_of_nat (length committed) * r\<rfloor>
      in drop (nat (max 0 (int (length committed) - overlapChars))) committed)"

definition splitStep :: "SplitOptions \<Rightarrow> SplitState \<Rightarrow> jsstring \<Rightarrow> SplitState" where
  \<comment> \<open>the body of the loop over the paragraphs\<close>
  "splitStep opts st p =
     (let t = estimateTokens p;
          st1 = (if tokens st > 0 \<and> tokens st + t > maxTokens opts then
                   (let committed = normalizeBlock (joinWith [LF, LF] (buf st));
                        st' = commit st
                    in if length committed > 0 \<and> trim (overlapText (overlapRatio opts) committed) \<noteq> []
                       then st'\<lparr>buf := buf st' @ [overlapText (overlapRatio opts) committed],
                                tokens := estimateTokens (overlapText (overlapRatio opts) committed)\<rparr>
                       else st')
                 else st)
      in st1\<lparr>buf := buf st1 @ [p], tokens := tokens st1 + t\<rparr>)"

definition splitSectionBySize :: "jsstring \<Rightarrow> SplitOptions \<Rightarrow> jsstring list" where
  "splitSectionBySize text opts =
     out (commit (foldl (splitStep opts) \<lparr>out = [], buf = [], tokens = 0\<rparr> (splitParas text)))"


subsection \<open>The sectionizer: the loop over the lines in chunkMarkdownByMeaning\<close>

record Frame =
  level :: nat
  slug :: jsstring
  title :: jsstring

record Current =
  h1 :: "Frame option"
  h2 :: "Frame option"
  h3 :: "Frame option"

record Section =
  path :: jsstring
  sec_text :: jsstring
  sec_title :: "jsstring option"
  parent :: "jsstring option"

record SectionizerState =
  current :: Current
  sectionBuf :: "jsstring list"
  sections :: "Section list"
  inFence :: bool

definition isFence :: "jsstring \<Rightarrow> bool" where
  \<comment> \<open>\<open>/^\s*```/.test(s)\<close>\<close>
  "isFence s = (take 3 (dropWhile isSpace s) = str ''```'')"

definition isHeading :: "jsstring \<Rightarrow> (nat \<times> jsstring) option" where
  \<comment> \<open>\<open>/^(#{1,6})\s+(.*)$/.exec(s)\<close>: the number of hashes and the title. The two greedy
      runs take every hash and every white space, and \<open>.*\<close> reaches the end of the string
      only over characters that are no line terminators.\<close>
  "isHeading s =
     (let hashes = takeWhile (\<lambda>c. c = of_char CHR ''#'') s;
          r = dropWhile (\<lambda>c. c = of_char CHR ''#'') s;
          t = dropWhile isSpace r
      in if 1 \<le> length hashes \<and> length hashes \<le> 6 \<and> takeWhile isSpace r \<noteq> [] \<and>
            list_all (\<lambda>c. \<not> isLineTerminator c) t
         then Some (length hashes, t) else None)"

definition currentPath :: "Current \<Rightarrow> jsstring" where
  "currentPath cur =
     (if h2 cur \<noteq> None \<and> h3 cur \<noteq> None then slug (the (h2 cur)) @ str ''/'' @ slug (the (h3 cur))
      else if h3 cur \<noteq> None \<and> h1 cur \<noteq> None then slug (the (h1 cur)) @ str ''/'' @ slug (the (h3 cur))
      else if h2 cur \<noteq> None then slug (the (h2 cur))
      else if h3 cur \<noteq> None then slug (the (h3 cur))
      else if h1 cur \<noteq> None then slug (the (h1 cur))
      else str ''intro'')"

definition currentTitle :: "Current \<Rightarrow> jsstring option" where
  "currentTitle cur =
     (if h3 cur \<noteq> None then Some (title (the (h3 cur)))
      else if h2 cur \<noteq> None then Some (title (the (h2 cur)))
      else if h1 cur \<noteq> None then Some (title (the (h1 cur)))
      else None)"

definition currentParent :: "Current \<Rightarrow> jsstring option" where
  "currentParent cur =
     (if h3 cur \<noteq> None \<and> h2 cur \<noteq> None then Some (title (the (h2 cur)))
      else if h2 cur \<noteq> None \<and> h1 cur \<noteq> None then Some (title (the (h1 cur)))
      else None)"

definition flush :: "SectionizerState \<Rightarrow> SectionizerState" where
  "flush st =
     (let txt = normalizeBlock (joinWith [LF] (sectionBuf st)) in
      if length (trim txt) = 0 then st\<lparr>sectionBuf := []\<rparr>
      else st\<lparr>sections := sections st @
                  [\<lparr>path = currentPath (current st), sec_text = txt,
                    sec_title = currentTitle (current st),
                    parent = currentParent (current st)\<rparr>],
              sectionBuf := []\<rparr>)"

definition setHeading :: "Current \<Rightarrow> nat \<Rightarrow> jsstring \<Rightarrow> Current" where
  \<comment> \<open>the update of \<open>current\<close> at a heading of \<open>n\<close> hashes\<close>
  "setHeading cur n t =
     (let lv = min 3 n; f = \<lparr>level = lv, slug = slugify t, title = t\<rparr> in
      if lv = 1 then \<lparr>h1 = Some f, h2 = None, h3 = None\<rparr>
      else if lv = 2 then cur\<lparr>h2 := Some f, h3 := None\<rparr>
      else if lv = 3 then cur\<lparr>h3 := Some f\<rparr>
      else cur)"

definition lineStep :: "SectionizerState \<Rightarrow> jsstring \<Rightarrow> SectionizerState" where
  \<comment> \<open>the body of the loop over the lines\<close>
  "lineStep st line =
     (if isFence line then st\<lparr>inFence := \<not> inFence st\<rparr>
      else if inFence st then st
      else (case isHeading line of
              Some (n, t) \<Rightarrow> (let st' = flush st in st'\<lparr>current := setHeading (current st') n t\<rparr>)
            | None \<Rightarrow> st\<lparr>sectionBuf := sectionBuf st @ [line]\<rparr>))"

definition initialState :: SectionizerState where
  "initialState = \<lparr>current = \<lparr>h1 = None, h2 = None, h3 = None\<rparr>, sectionBuf = [],
                    sections = [], inFence = False\<rparr>"

definition mdLines :: "jsstring \<Rightarrow> jsstring list" where
  "mdLines md = splitOn LF (replaceCRLF md)"

definition sectionize :: "jsstring \<Rightarrow> Section list" where
  "sectionize md = sections (flush (foldl lineStep initialState (mdLines md)))"

subsection \<open>From sections to chunks\<close>

record BaseMeta =
  universe :: "jsstring option"
  species :: "jsstring option"
  subspecies :: "jsstring option"

record ChunkMeta = BaseMeta +
  source_file :: jsstring
  section_path :: jsstring
  section_title :: "jsstring option"
  parent_section :: "jsstring option"
  entities :: "jsstring list"
  concepts :: "jsstring list"
  content_type :: content_type
  importance_score :: rat
  aliases :: "jsstring list"
  parent_chunk_id :: "jsstring option"

record MeaningChunk =
  chunk_id :: jsstring
  chunk_text :: jsstring
  meta :: ChunkMeta

text \<open>
  \<open>extractEntities\<close> and \<open>extractConcepts\<close> are pure functions from a text to a list of
  strings. Nothing below depends on which lists they return, so the chunker takes the two
  as the parameters \<open>ee\<close> and \<open>ec\<close>.
\<close>

definition mkChunk ::
  "BaseMeta \<Rightarrow> jsstring \<Rightarrow> Section \<Rightarrow> jsstring \<Rightarrow> jsstring list \<Rightarrow> jsstring list \<Rightarrow>
   content_type \<times> rat \<Rightarrow> jsstring option \<Rightarrow> MeaningChunk" where
  \<comment> \<open>the object literal pushed on \<open>chunks\<close>\<close>
  "mkChunk baseMeta sourceFile sec txt ents cons an par =
     \<lparr>chunk_id = [], chunk_text = txt,
      meta = \<lparr>universe = universe baseMeta, species = species baseMeta,
              subspecies = subspecies baseMeta, source_file = sourceFile,
              section_path = path sec, section_title = sec_title sec,
              parent_section = parent sec, entities = ents, concepts = cons,
              content_type = fst an, importance_score = snd an, aliases = [],
              parent_chunk_id = par\<rparr>\<rparr>"

definition titled :: "Section \<Rightarrow> bool" where
  \<comment> \<open>\<open>sec.title\<close> is truthy: present and not the empty string\<close>
  "titled sec = (case sec_title sec of None \<Rightarrow> False | Some t \<Rightarrow> t \<noteq> [])"

definition fullText :: "Section \<Rightarrow> jsstring" where
  "fullText sec = (if titled sec then the (sec_title sec) @ [LF, LF] @ sec_text sec else sec_text sec)"

definition contextualText :: "Section \<Rightarrow> jsstring" where
  "contextualText sec =
     (if titled sec \<and> \<not> str_includes (sec_text sec) (the (sec_title sec))
      then the (sec_title sec) @ [LF, LF] @ sec_text sec else sec_text sec)"

definition sectionChunks ::
  "(jsstring \<Rightarrow> jsstring list) \<Rightarrow> (jsstring \<Rightarrow> jsstring list) \<Rightarrow> SplitOptions \<Rightarrow> BaseMeta \<Rightarrow>
   jsstring \<Rightarrow> Section \<Rightarrow> MeaningChunk list" where
  \<comment> \<open>the body of the loop over the sections\<close>
  "sectionChunks ee ec opts baseMeta sourceFile sec =
     (let est = estimateTokens (sec_text sec);
          whole = mkChunk baseMeta sourceFile sec (contextualText sec)
                    (ee (fullText sec)) (ec (fullText sec)) (analyzeContent (sec_text sec)) None
      in if est \<le> maxTokens opts then [whole]
         else (let parts = splitSectionBySize (contextualText sec) opts in
               if length parts \<le> 1 then [whole]
               else map (\<lambda>p. mkChunk baseMeta sourceFile sec p (ee p) (ec p) (analyzeContent p)
                                (Some (sourceFile @ str '':'' @ path sec))) parts))"

definition chunkMarkdownByMeaning ::
  "(jsstring \<Rightarrow> jsstring list) \<Rightarrow> (jsstring \<Rightarrow> jsstring list) \<Rightarrow> jsstring \<Rightarrow> jsstring \<Rightarrow> BaseMeta \<Rightarrow>
   Options \<Rightarrow> MeaningChunk list" where
  "chunkMarkdownByMeaning ee ec md sourceFile baseMeta options =
     concat (map (sectionChunks ee ec (withDefaults options) baseMeta sourceFile) (sectionize md))"


section \<open>The vector store (store.ts)\<close>

datatype error =
    EmbeddingFailed          \<comment> \<open>both embedding routes threw\<close>
  | EmbeddingDimZero         \<comment> \<open>"embedding returned dim=0"\<close>
  | DimMismatch nat nat      \<comment> \<open>setDim: "DB dim=... vs new dim=..."\<close>
  | DimNotSet                \<comment> \<open>getDim: "dim not set; bake first"\<close>
  | BadDim nat nat           \<comment> \<open>upsertMany: "bad dim: got ..., expected ..."\<close>
  | RidMissing jsstring        \<comment> \<open>upsertMany: "failed to obtain rid for id=..."\<close>
  | NoSuchTable              \<comment> \<open>SQLite: a statement on vec_chunks is prepared before the table exists\<close>

text \<open>
  A row of the table \<open>chunks\<close>. The column \<open>created_at\<close> holds the time of the insert and
  is not modelled. \<open>rid\<close> is the INTEGER PRIMARY KEY, which SQLite assigns.
\<close>

record ChunkRow =
  rid :: int
  c_id :: jsstring
  c_path :: jsstring
  c_chunk :: jsstring
  c_sha :: jsstring
  c_metadata :: "jsstring option"

text \<open>A row handed to \<open>upsertMany\<close>.\<close>

record UpsertRow =
  u_id :: jsstring
  u_path :: jsstring
  u_chunk :: jsstring
  u_embedding :: "rat list"
  u_sha :: jsstring
  u_metadata :: "jsstring option"

text \<open>
  The database file: the row \<open>dim\<close> of the table \<open>meta\<close>, the table \<open>chunks\<close> in
  insertion order, and the virtual table \<open>vec_chunks\<close> (absent until \<open>setDim\<close> creates it)
  as a list of rowid and embedding.
\<close>

record DB =
  meta_dim :: "nat option"
  chunks :: "ChunkRow list"
  vec_chunks :: "(int \<times> rat list) list option"

record VectorStore =
  db :: DB
  dim :: "nat option"

definition openStore :: "DB \<Rightarrow> VectorStore" where
  \<comment> \<open>\<open>new VectorStore(dbPath)\<close> on a database file\<close>
  "openStore d = \<lparr>db = d, dim = None\<rparr>"

definition setDim :: "VectorStore \<Rightarrow> nat \<Rightarrow> error option \<times> VectorStore" where
  "setDim s d =
     (case meta_dim (db s) of
        None \<Rightarrow>
          (None, s\<lparr>db := (db s)\<lparr>meta_dim := Some d,
                                vec_chunks := (case vec_chunks (db s) of None \<Rightarrow> Some []
                                               | Some v \<Rightarrow> Some v)\<rparr>,
                    dim := Some d\<rparr>)
      | Some v \<Rightarrow> if v \<noteq> d then (Some (DimMismatch v d), s) else (None, s\<lparr>dim := Some d\<rparr>))"

definition getDim :: "VectorStore \<Rightarrow> (error + nat) \<times> VectorStore" where
  "getDim s =
     (if dim s \<noteq> None \<and> the (dim s) \<noteq> 0 then (Inr (the (dim s)), s)
      else (case meta_dim (db s) of
              None \<Rightarrow> (Inl DimNotSet, s)
            | Some v \<Rightarrow> (Inr v, s\<lparr>dim := Some v\<rparr>)))"

definition nextRid :: "ChunkRow list \<Rightarrow> int" where
  \<comment> \<open>the rowid SQLite gives a new row: one more than the largest in use\<close>
  "nextRid t = (if t = [] then 1 else Max (set (map rid t)) + 1)"

definition upsertChunkMeta :: "ChunkRow list \<Rightarrow> UpsertRow \<Rightarrow> ChunkRow list" where
  \<comment> \<open>INSERT INTO chunks ... ON CONFLICT(id) DO UPDATE SET path, chunk, sha, metadata\<close>
  "upsertChunkMeta t r =
     (if list_ex (\<lambda>x. c_id x = u_id r) t
      then map (\<lambda>x. if c_id x = u_id r
                     then x\<lparr>c_path := u_path r, c_chunk := u_chunk r, c_sha := u_sha r,
                            c_metadata := u_metadata r\<rparr>
                     else x) t
      else t @ [\<lparr>rid = nextRid t, c_id = u_id r, c_path = u_path r, c_chunk = u_chunk r,
                 c_sha = u_sha r, c_metadata = u_metadata r\<rparr>])"

definition selectRid :: "ChunkRow list \<Rightarrow> jsstring \<Rightarrow> int option" where
  \<comment> \<open>SELECT rid FROM chunks WHERE id = @id\<close>
  "selectRid t i = map_option rid (find (\<lambda>x. c_id x = i) t)"

definition updateVec :: "(int \<times> rat list) list \<Rightarrow> int \<Rightarrow> rat list \<Rightarrow> nat \<times> (int \<times> rat list) list" where
  \<comment> \<open>UPDATE vec_chunks SET embedding = ... WHERE rowid = rid, with the number of rows changed\<close>
  "updateVec v k e =
     (length (filter (\<lambda>x. fst x = k) v), map (\<lambda>x. if fst x = k then (k, e) else x) v)"

definition insertVec :: "(int \<times> rat list) list \<Rightarrow> int \<Rightarrow> rat list \<Rightarrow> (int \<times> rat list) list" where
  "insertVec v k e = v @ [(k, e)]"

definition upsertRow :: "nat \<Rightarrow> DB \<Rightarrow> UpsertRow \<Rightarrow> error + DB" where
  \<comment> \<open>the body of the loop inside the transaction\<close>
  "upsertRow ensureDim d r =
     (if length (u_embedding r) \<noteq> ensureDim then Inl (BadDim (length (u_embedding r)) ensureDim)
      else (let t = upsertChunkMeta (chunks d) r in
            case selectRid t (u_id r) of
              None \<Rightarrow> Inl (RidMissing (u_id r))
            | Some k \<Rightarrow>
                (case vec_chunks d of
                   None \<Rightarrow> Inl NoSuchTable
                 | Some v \<Rightarrow>
                     (let u = updateVec v k (u_embedding r) in
                      Inr (d\<lparr>chunks := t,
                             vec_chunks := Some (if fst u = 0 then insertVec (snd u) k (u_embedding r)
                                                 else snd u)\<rparr>)))))"

fun upsertRows :: "nat \<Rightarrow> DB \<Rightarrow> UpsertRow list \<Rightarrow> error + DB" where
  \<comment> \<open>the loop inside the transaction; a throw leaves it\<close>
  "upsertRows ensureDim d [] = Inr d"
| "upsertRows ensureDim d (r # rs) =
     (case upsertRow ensureDim d r of Inl e \<Rightarrow> Inl e | Inr d' \<Rightarrow> upsertRows ensureDim d' rs)"

definition upsertMany :: "VectorStore \<Rightarrow> UpsertRow list \<Rightarrow> error option \<times> VectorStore" where
  \<comment> \<open>\<open>db.transaction(fn)\<close> commits when \<open>fn\<close> returns and rolls back to the state before
      the call when it throws\<close>
  "upsertMany s rows =
     (case getDim s of
        (Inl e, s1) \<Rightarrow> (Some e, s1)
      | (Inr ensureDim, s1) \<Rightarrow>
          (if vec_chunks (db s1) = None then (Some NoSuchTable, s1)
           else (case upsertRows ensureDim (db s1) rows of
                   Inl e \<Rightarrow> (Some e, s1)
                 | Inr d' \<Rightarrow> (None, s1\<lparr>db := d'\<rparr>))))"


section \<open>Indexing (bake.ts, embeddings.ts, util.ts)\<close>

text \<open>
  What the pipeline calls outside this repository is a parameter: the hash \<open>sha1\<close> of
  node:crypto, \<open>JSON.stringify\<close> on a chunk's metadata, and the two embedding routes, each
  of which returns one vector per text or throws (\<open>None\<close>). The conversions between
  \<open>number[]\<close> and \<open>Float32Array\<close> are taken as the identity.
\<close>

record Env =
  sha1 :: "jsstring \<Rightarrow> jsstring"
  JSON_stringify :: "ChunkMeta \<Rightarrow> jsstring"
  embedViaOllama :: "jsstring list \<Rightarrow> rat list list option"
  embedViaOpenAI :: "jsstring list \<Rightarrow> rat list list option"
  preferNative :: bool
  extractEntities :: "jsstring \<Rightarrow> jsstring list"
  extractConcepts :: "jsstring \<Rightarrow> jsstring list"

definition embedBatch :: "Env \<Rightarrow> jsstring list \<Rightarrow> error + (rat list list \<times> nat)" where
  "embedBatch env texts =
     (let first = (if preferNative env then embedViaOllama env else embedViaOpenAI env);
          second = (if preferNative env then embedViaOpenAI env else embedViaOllama env)
      in case (case first texts of Some v \<Rightarrow> Some v | None \<Rightarrow> second texts) of
           None \<Rightarrow> Inl EmbeddingFailed
         | Some vecs \<Rightarrow>
             (let d = (case vecs of [] \<Rightarrow> 0 | v # _ \<Rightarrow> length v) in
              if d = 0 then Inl EmbeddingDimZero else Inr (vecs, d)))"

function showNat :: "nat \<Rightarrow> jsstring" where
  \<comment> \<open>the decimal digits of a number inside a template literal\<close>
  "showNat n = (if n < 10 then [of_nat (48 + n)] else showNat (n div 10) @ [of_nat (48 + n mod 10)])"
  by pat_completeness auto
termination
  by (relation "measure id") auto

definition BATCH :: nat where
  "BATCH = 16"

function batches :: "nat \<Rightarrow> 'a list \<Rightarrow> 'a list list" where
  \<comment> \<open>\<open>chunks.slice(i, i + n)\<close> for \<open>i = 0, n, 2n, ...\<close> below \<open>chunks.length\<close>\<close>
  "batches n xs = (if n = 0 \<or> xs = [] then [] else take n xs # batches n (drop n xs))"
  by pat_completeness auto
termination
  by (relation "measure (\<lambda>(n, xs). length xs)") auto

definition chunkKey :: "nat \<Rightarrow> MeaningChunk \<Rightarrow> jsstring" where
  \<comment> \<open>the string whose hash is the id of the chunk at index \<open>j\<close> of its batch\<close>
  "chunkKey j s =
     (let parent = parent_chunk_id (meta s);
          subKey = (if parent \<noteq> None \<and> the parent \<noteq> [] then str '':'' @ showNat j else [])
      in source_file (meta s) @ str '':'' @ section_path (meta s) @ subKey)"

definition bakeRows :: "Env \<Rightarrow> jsstring \<Rightarrow> MeaningChunk list \<Rightarrow> rat list list \<Rightarrow> UpsertRow list" where
  \<comment> \<open>\<open>slice.map((s, j) => ...)\<close>; a missing \<open>vectors[j]\<close> gives an empty Float32Array\<close>
  "bakeRows env rel batch vectors =
     map (\<lambda>(j, s). \<lparr>u_id = sha1 env (chunkKey j s), u_path = rel, u_chunk = chunk_text s,
                     u_embedding = (if j < length vectors then vectors ! j else []),
                     u_sha = sha1 env (rel @ str '':'' @ chunk_text s),
                     u_metadata = Some (JSON_stringify env (meta s))\<rparr>)
         (enumerate 0 batch)"

record BakeState =
  store :: VectorStore
  total :: nat
  dimSet :: bool

definition bakeBatch :: "Env \<Rightarrow> jsstring \<Rightarrow> BakeState \<Rightarrow> MeaningChunk list \<Rightarrow> error option \<times> BakeState" where
  \<comment> \<open>the body of the loop over the batches of a file\<close>
  "bakeBatch env rel st batch =
     (case embedBatch env (map chunk_text batch) of
        Inl e \<Rightarrow> (Some e, st)
      | Inr (vectors, d) \<Rightarrow>
          (case (if \<not> dimSet st then setDim (store st) d else (None, store st)) of
             (Some e, s1) \<Rightarrow> (Some e, st\<lparr>store := s1\<rparr>)
           | (None, s1) \<Rightarrow>
               (let rows = bakeRows env rel batch vectors in
                case upsertMany s1 rows of
                  (Some e, s2) \<Rightarrow> (Some e, st\<lparr>store := s2, dimSet := True\<rparr>)
                | (None, s2) \<Rightarrow>
                    (None, \<lparr>store = s2, total = total st + length rows, dimSet = True\<rparr>))))"

fun bakeBatches :: "Env \<Rightarrow> jsstring \<Rightarrow> BakeState \<Rightarrow> MeaningChunk list list \<Rightarrow> error option \<times> BakeState" where
  "bakeBatches env rel st [] = (None, st)"
| "bakeBatches env rel st (b # bs) =
     (case bakeBatch env rel st b of
        (Some e, st') \<Rightarrow> (Some e, st')
      | (None, st') \<Rightarrow> bakeBatches env rel st' bs)"

definition bakeOptions :: Options where
  \<comment> \<open>the options \<open>bake\<close> passes to the chunker\<close>
  "bakeOptions = \<lparr>optMaxTokens = Some 400, optOverlapRatio = Some (15 / 100)\<rparr>"

definition fileChunks :: "Env \<Rightarrow> BaseMeta \<Rightarrow> jsstring \<times> jsstring \<Rightarrow> MeaningChunk list" where
  \<comment> \<open>the call of the chunker in \<open>bake\<close>, on a file's relative path and content\<close>
  "fileChunks env baseMeta f =
     chunkMarkdownByMeaning (extractEntities env) (extractConcepts env) (snd f) (fst f) baseMeta
       bakeOptions"

definition bakeFile :: "Env \<Rightarrow> BaseMeta \<Rightarrow> BakeState \<Rightarrow> jsstring \<times> jsstring \<Rightarrow> error option \<times> BakeState" where
  \<comment> \<open>the body of the loop over the files\<close>
  "bakeFile env baseMeta st f =
     (let cs = fileChunks env baseMeta f in
      if cs = [] then (None, st) else bakeBatches env (fst f) st (batches BATCH cs))"

fun bakeFiles :: "Env \<Rightarrow> BaseMeta \<Rightarrow> BakeState \<Rightarrow> (jsstring \<times> jsstring) list \<Rightarrow> error option \<times> BakeState" where
  "bakeFiles env baseMeta st [] = (None, st)"
| "bakeFiles env baseMeta st (f # fs) =
     (case bakeFile env baseMeta st f of
        (Some e, st') \<Rightarrow> (Some e, st')
      | (None, st') \<Rightarrow> bakeFiles env baseMeta st' fs)"

definition bake :: "Env \<Rightarrow> BaseMeta \<Rightarrow> DB \<Rightarrow> (jsstring \<times> jsstring) list \<Rightarrow> error option \<times> DB" where
  \<comment> \<open>a run of \<open>bake\<close> on a database file and on the files \<open>walkMarkdown\<close> yields, in its
      order, each with its relative path and its content; the result is the error thrown,
      if any, and the database file afterwards\<close>
  "bake env baseMeta d files =
     (case bakeFiles env baseMeta \<lparr>store = openStore d, total = 0, dimSet = False\<rparr> files of
        (r, st) \<Rightarrow> (r, db (store st)))"

section \<open>Retrieval (search.ts)\<close>

record SearchHit =
  h_id :: jsstring
  h_path :: jsstring
  h_chunk :: jsstring
  h_distance :: rat
  h_score :: rat
  h_metadata :: "jsstring option"



text \<open>
  \<open>JSON.parse\<close> is the parameter \<open>parse\<close>: it throws (\<open>None\<close>) or returns a value. The
  value is \<open>null\<close>, or an object, or one of the other values (a number, a string, a boolean,
  an array), on which every property read below gives \<open>undefined\<close>. The metadata column is
  written by \<open>bake\<close> alone, as \<open>JSON.stringify\<close> of a \<open>ChunkMeta\<close>, so an object is read in
  that shape: each field is absent or holds a value of the type \<open>bake\<close> writes.
\<close>

record ParsedMeta =
  m_universe :: "jsstring option"
  m_species :: "jsstring option"
  m_subspecies :: "jsstring option"
  m_source_file :: "jsstring option"
  m_section_path :: "jsstring option"
  m_section_title :: "jsstring option"
  m_entities :: "jsstring list option"
  m_concepts :: "jsstring list option"
  m_content_type :: "jsstring option"
  m_importance_score :: "rat option"

definition emptyMeta :: ParsedMeta where
  \<comment> \<open>the object literal \<open>{}\<close>\<close>
  "emptyMeta = \<lparr>m_universe = None, m_species = None, m_subspecies = None, m_source_file = None,
                 m_section_path = None, m_section_title = None, m_entities = None,
                 m_concepts = None, m_content_type = None, m_importance_score = None\<rparr>"

datatype json = JNull | JObject ParsedMeta | JOther

definition hitMeta :: "(jsstring \<Rightarrow> json option) \<Rightarrow> SearchHit \<Rightarrow> ParsedMeta option" where
  \<comment> \<open>\<open>hit.metadata ? JSON.parse(hit.metadata) : {}\<close> as the property reads behind it see it.
      \<open>None\<close> stands for a throw inside the \<open>try\<close> block: by \<open>JSON.parse\<close>, or by the first
      property read when the value is \<open>null\<close>. In \<open>applyFilters\<close> no property of \<open>null\<close> is
      read when no filter is set to a truthy value, and the hit is kept then as well.\<close>
  "hitMeta parse hit =
     (case h_metadata hit of
        None \<Rightarrow> Some emptyMeta
      | Some s \<Rightarrow>
          if s = [] then Some emptyMeta
          else (case parse s of
                  None \<Rightarrow> None
                | Some JNull \<Rightarrow> None
                | Some (JObject metadata) \<Rightarrow> Some metadata
                | Some JOther \<Rightarrow> Some emptyMeta))"

record Filters =
  f_universe :: "jsstring option"
  f_species :: "jsstring option"
  f_subspecies :: "jsstring option"
  f_content_type :: "jsstring option"
  f_min_importance :: "rat option"

definition truthyStr :: "jsstring option \<Rightarrow> bool" where
  "truthyStr x = (case x of None \<Rightarrow> False | Some s \<Rightarrow> s \<noteq> [])"

definition truthyNum :: "rat option \<Rightarrow> bool" where
  "truthyNum x = (case x of None \<Rightarrow> False | Some n \<Rightarrow> n \<noteq> 0)"

definition orNum :: "rat option \<Rightarrow> rat \<Rightarrow> rat" where
  \<comment> \<open>\<open>x || d\<close> on a number that may be absent\<close>
  "orNum x d = (if truthyNum x then the x else d)"

definition keepHit :: "(jsstring \<Rightarrow> json option) \<Rightarrow> Filters \<Rightarrow> SearchHit \<Rightarrow> bool" where
  \<comment> \<open>the callback of \<open>hits.filter\<close> in \<open>applyFilters\<close>\<close>
  "keepHit parse filters hit =
     (case hitMeta parse hit of
        None \<Rightarrow> True
      | Some metadata \<Rightarrow>
          if truthyStr (f_universe filters) \<and> m_universe metadata \<noteq> f_universe filters then False
          else if truthyStr (f_species filters) \<and> m_species metadata \<noteq> f_species filters then False
          else if truthyStr (f_subspecies filters) \<and> m_subspecies metadata \<noteq> f_subspecies filters then False
          else if truthyStr (f_content_type filters) \<and> m_content_type metadata \<noteq> f_content_type filters then False
          else if truthyNum (f_min_importance filters) \<and>
                  orNum (m_importance_score metadata) 0 < the (f_min_importance filters) then False
          else True)"

definition noKeys :: "Filters \<Rightarrow> bool" where
  \<comment> \<open>\<open>Object.keys(filters).length === 0\<close>\<close>
  "noKeys f = (f_universe f = None \<and> f_species f = None \<and> f_subspecies f = None \<and>
               f_content_type f = None \<and> f_min_importance f = None)"

definition applyFilters :: "(jsstring \<Rightarrow> json option) \<Rightarrow> SearchHit list \<Rightarrow> Filters \<Rightarrow> SearchHit list" where
  "applyFilters parse hits filters =
     (if noKeys filters then hits else filter (keepHit parse filters) hits)"







record RankedHit =
  hit :: SearchHit
  relevance_score :: rat



section \<open>Notions used to state the properties\<close>

fun unfenced :: "bool \<Rightarrow> jsstring list \<Rightarrow> jsstring list" where
  \<comment> \<open>the lines that are neither fence markers nor between two of them; the flag says
      that a fence is open\<close>
  "unfenced f [] = []"
| "unfenced f (l # ls) =
     (if isFence l then unfenced (\<not> f) ls
      else if f then unfenced f ls
      else l # unfenced f ls)"

definition sectionizeLines :: "jsstring list \<Rightarrow> Section list" where
  \<comment> \<open>the sectionizer on a list of lines\<close>
  "sectionizeLines ls = sections (flush (foldl lineStep initialState ls))"

definition quoteLineRatio :: "jsstring \<Rightarrow> rat" where
  "quoteLineRatio txt =
     rat_of_nat (countAnchored matchQuote True txt) / rat_of_nat (length (splitOn LF txt))"

definition listLineRatio :: "jsstring \<Rightarrow> rat" where
  "listLineRatio txt =
     rat_of_nat (countAnchored (matchBullet [of_char CHR ''-'', of_char CHR ''*'', of_char CHR ''+'', 0x2022]) True txt +
                 countAnchored matchNumbered True txt) / rat_of_nat (length (splitOn LF txt))"

definition specImportance :: "jsstring \<Rightarrow> rat" where
  \<comment> \<open>the importance score in the words of the specification\<close>
  "specImportance txt =
     max (1 / 10) (min 1
       (5 / 10
        + min (3 / 10) (2 / 100 * rat_of_nat (countMatches matchCapitalized txt))
        + min (2 / 10) (5 / 100 * rat_of_nat (countMatches matchEmphasized txt))
        + (if quoteLineRatio txt > 2 / 10 then 15 / 100 else 0)
        + (if listLineRatio txt > 3 / 10 then 1 / 10 else 0)
        - (if length txt < 100 then 2 / 10 else 0)))"


definition rids :: "DB \<Rightarrow> int set" where
  \<comment> \<open>the row ids of the chunk records\<close>
  "rids d = set (map rid (chunks d))"

definition vecKeys :: "DB \<Rightarrow> int set" where
  \<comment> \<open>the row ids of the vector entries\<close>
  "vecKeys d = (case vec_chunks d of None \<Rightarrow> {} | Some v \<Rightarrow> set (map fst v))"

definition blank :: "jsstring \<Rightarrow> bool" where
  \<comment> \<open>a text of white space only\<close>
  "blank s = list_all isSpace s"

definition keyFields :: "MeaningChunk \<Rightarrow> jsstring \<times> jsstring \<times> jsstring option" where
  \<comment> \<open>what the id of a chunk is computed from, beside its index in the batch\<close>
  "keyFields c = (source_file (meta c), section_path (meta c), parent_chunk_id (meta c))"

definition tableDoc :: jsstring where
  \<comment> \<open>a document of a line of introduction and a section \<open>B\<close> of two paragraphs, each a
      table of 36 rows\<close>
  "tableDoc = str ''intro text'' @ [LF] @ str ''## B'' @ [LF] @
     concat (replicate 36 (str ''|a|b|'' @ [LF])) @ [LF] @ concat (replicate 36 (str ''|c|d|'' @ [LF]))"

section \<open>Notions used in the proofs\<close>

text \<open>
  The two tables are lists of records with a key, and both writes of \<open>upsertMany\<close> are the
  same operation on such a list: \<open>gups\<close> updates the records under the key of the action
  when there are some and appends a new record otherwise. \<open>glast\<close> is the last action of a
  list under a key, and \<open>gow\<close> overwrites a record with the last action under its key.
\<close>

definition gups :: "('x \<Rightarrow> 'k) \<Rightarrow> ('a \<Rightarrow> 'k) \<Rightarrow> ('a \<Rightarrow> 'x \<Rightarrow> 'x) \<Rightarrow> ('x list \<Rightarrow> 'a \<Rightarrow> 'x) \<Rightarrow>
    'x list \<Rightarrow> 'a \<Rightarrow> 'x list" where
  "gups kx ka upd mk l a =
     (if list_ex (\<lambda>x. kx x = ka a) l
      then map (\<lambda>x. if kx x = ka a then upd a x else x) l
      else l @ [mk l a])"

fun glast :: "('a \<Rightarrow> 'k) \<Rightarrow> 'a list \<Rightarrow> 'k \<Rightarrow> 'a option" where
  "glast ka [] k = None"
| "glast ka (a # as) k =
     (case glast ka as k of Some b \<Rightarrow> Some b | None \<Rightarrow> if ka a = k then Some a else None)"

definition gow :: "('x \<Rightarrow> 'k) \<Rightarrow> ('a \<Rightarrow> 'k) \<Rightarrow> ('a \<Rightarrow> 'x \<Rightarrow> 'x) \<Rightarrow> 'a list \<Rightarrow> 'x \<Rightarrow> 'x" where
  "gow kx ka upd as x = (case glast ka as (kx x) of None \<Rightarrow> x | Some a \<Rightarrow> upd a x)"

text \<open>
  The effect of the loop body of \<open>upsertMany\<close> when it does not throw: \<open>put\<close>, and the
  vector writes \<open>writes\<close> of a list of rows on a table of chunk records.
\<close>

definition setData :: "UpsertRow \<Rightarrow> ChunkRow \<Rightarrow> ChunkRow" where
  "setData r x = x\<lparr>c_path := u_path r, c_chunk := u_chunk r, c_sha := u_sha r,
                   c_metadata := u_metadata r\<rparr>"

definition newRow :: "ChunkRow list \<Rightarrow> UpsertRow \<Rightarrow> ChunkRow" where
  "newRow t r = \<lparr>rid = nextRid t, c_id = u_id r, c_path = u_path r, c_chunk = u_chunk r,
                 c_sha = u_sha r, c_metadata = u_metadata r\<rparr>"

definition writeVec :: "(int \<times> rat list) list \<Rightarrow> int \<times> rat list \<Rightarrow> (int \<times> rat list) list" where
  "writeVec v a =
     (if fst (updateVec v (fst a) (snd a)) = 0
      then insertVec (snd (updateVec v (fst a) (snd a))) (fst a) (snd a)
      else snd (updateVec v (fst a) (snd a)))"

definition put :: "DB \<Rightarrow> UpsertRow \<Rightarrow> DB" where
  "put d r =
     d\<lparr>chunks := upsertChunkMeta (chunks d) r,
       vec_chunks := Some (writeVec (the (vec_chunks d))
                             (the (selectRid (upsertChunkMeta (chunks d) r) (u_id r)), u_embedding r))\<rparr>"

fun writes :: "ChunkRow list \<Rightarrow> UpsertRow list \<Rightarrow> (int \<times> rat list) list" where
  "writes t [] = []"
| "writes t (r # rs) =
     (the (selectRid (upsertChunkMeta t r) (u_id r)), u_embedding r) # writes (upsertChunkMeta t r) rs"

text \<open>
  A run of \<open>bake\<close> as one loop over the batches of all files: \<open>allBatches\<close> lists them,
  \<open>runBatches\<close> is the loop, \<open>batchRows\<close> and \<open>batchDim\<close> are the rows and the dimension
  that the embedding of a batch gives, \<open>batchOk\<close> says that a batch is embedded with vectors
  of one length, \<open>ready\<close> that the dimension has been set, \<open>prep\<close> is the database after
  the first \<open>setDim\<close>, and \<open>start\<close> the state in which \<open>bake\<close> begins.
\<close>

definition allBatches :: "Env \<Rightarrow> BaseMeta \<Rightarrow> (jsstring \<times> jsstring) list \<Rightarrow> (jsstring \<times> MeaningChunk list) list" where
  "allBatches env bm files =
     concat (map (\<lambda>f. map (\<lambda>b. (fst f, b)) (batches BATCH (fileChunks env bm f))) files)"

fun runBatches :: "Env \<Rightarrow> BakeState \<Rightarrow> (jsstring \<times> MeaningChunk list) list \<Rightarrow> error option \<times> BakeState" where
  "runBatches env st [] = (None, st)"
| "runBatches env st (b # bs) =
     (case bakeBatch env (fst b) st (snd b) of
        (Some e, st') \<Rightarrow> (Some e, st')
      | (None, st') \<Rightarrow> runBatches env st' bs)"

definition batchRows :: "Env \<Rightarrow> jsstring \<times> MeaningChunk list \<Rightarrow> UpsertRow list" where
  "batchRows env b =
     (case embedBatch env (map chunk_text (snd b)) of
        Inl e \<Rightarrow> []
      | Inr (vs, n) \<Rightarrow> bakeRows env (fst b) (snd b) vs)"

definition batchDim :: "Env \<Rightarrow> jsstring \<times> MeaningChunk list \<Rightarrow> nat option" where
  "batchDim env b =
     (case embedBatch env (map chunk_text (snd b)) of Inl e \<Rightarrow> None | Inr (vs, n) \<Rightarrow> Some n)"

definition batchOk :: "Env \<Rightarrow> nat \<Rightarrow> jsstring \<times> MeaningChunk list \<Rightarrow> bool" where
  "batchOk env m b =
     (batchDim env b \<noteq> None \<and> (\<forall>r \<in> set (batchRows env b). length (u_embedding r) = m))"

definition ready :: "BakeState \<Rightarrow> nat \<Rightarrow> bool" where
  "ready st m = (dimSet st \<and> dim (store st) = Some m \<and> m \<noteq> 0 \<and> vec_chunks (db (store st)) \<noteq> None)"

definition prep :: "DB \<Rightarrow> nat \<Rightarrow> DB" where
  "prep d n =
     (case meta_dim d of
        None \<Rightarrow> d\<lparr>meta_dim := Some n,
                   vec_chunks := (case vec_chunks d of None \<Rightarrow> Some [] | Some v \<Rightarrow> Some v)\<rparr>
      | Some v \<Rightarrow> d)"

definition start :: "DB \<Rightarrow> BakeState" where
  "start d = \<lparr>store = openStore d, total = 0, dimSet = False\<rparr>"

section \<open>Properties\<close>

subsection \<open>The sectionizer skips fenced blocks\<close>

lemma lineStep_fence: "isFence l \<Longrightarrow> lineStep st l = st\<lparr>inFence := \<not> inFence st\<rparr>"
  by (simp add: lineStep_def)

lemma lineStep_inside: "\<not> isFence l \<Longrightarrow> inFence st \<Longrightarrow> lineStep st l = st"
  by (simp add: lineStep_def)

lemma inFence_flush: "inFence (flush st) = inFence st"
  by (simp add: flush_def Let_def)

lemma lineStep_outside_inFence:
  "\<not> isFence l \<Longrightarrow> \<not> inFence st \<Longrightarrow> \<not> inFence (lineStep st l)"
  by (simp add: lineStep_def Let_def inFence_flush split: option.splits prod.splits)

lemma inFence_False_id: "\<not> inFence st \<Longrightarrow> st\<lparr>inFence := False\<rparr> = st"
  by simp

lemma foldl_lineStep_unfenced:
  "\<exists>b. foldl lineStep st ls =
       (foldl lineStep (st\<lparr>inFence := False\<rparr>) (unfenced (inFence st) ls))\<lparr>inFence := b\<rparr>"
proof (induction ls arbitrary: st)
  case Nil
  show ?case by (rule exI [of _ "inFence st"]) simp
next
  case (Cons l ls)
  show ?case
  proof (cases "isFence l")
    case True
    from Cons.IH [of "st\<lparr>inFence := \<not> inFence st\<rparr>"] True show ?thesis
      by (simp add: lineStep_fence)
  next
    case nf: False
    show ?thesis
    proof (cases "inFence st")
      case True
      from Cons.IH [of st] nf True show ?thesis
        by (simp add: lineStep_inside)
    next
      case False
      have a: "\<not> inFence (lineStep st l)"
        using nf False by (rule lineStep_outside_inFence)
      from Cons.IH [of "lineStep st l"] nf False a show ?thesis
        by (simp add: inFence_False_id)
    qed
  qed
qed

lemma sections_flush_inFence: "sections (flush (st\<lparr>inFence := b\<rparr>)) = sections (flush st)"
  by (simp add: flush_def Let_def)

lemma sectionizeLines_unfenced: "sectionizeLines ls = sectionizeLines (unfenced False ls)"
proof -
  obtain b where "foldl lineStep initialState ls =
       (foldl lineStep (initialState\<lparr>inFence := False\<rparr>) (unfenced (inFence initialState) ls))\<lparr>inFence := b\<rparr>"
    using foldl_lineStep_unfenced by blast
  moreover have "initialState\<lparr>inFence := False\<rparr> = initialState" "inFence initialState = False"
    by (simp_all add: initialState_def)
  ultimately show ?thesis
    by (simp add: sectionizeLines_def sections_flush_inFence)
qed

lemma foldl_lineStep_plain:
  "\<not> inFence st \<Longrightarrow> list_all (\<lambda>l. \<not> isFence l \<and> isHeading l = None) ls \<Longrightarrow>
   foldl lineStep st ls = st\<lparr>sectionBuf := sectionBuf st @ ls\<rparr>"
proof (induction ls arbitrary: st)
  case Nil
  then show ?case by simp
next
  case (Cons l ls)
  have s: "lineStep st l = st\<lparr>sectionBuf := sectionBuf st @ [l]\<rparr>"
    using Cons.prems by (simp add: lineStep_def)
  have "foldl lineStep (lineStep st l) ls =
        (lineStep st l)\<lparr>sectionBuf := sectionBuf (lineStep st l) @ ls\<rparr>"
    using Cons.prems by (intro Cons.IH) (simp_all add: s)
  then show ?case by (simp add: s)
qed

lemma unfenced_no_fence: "list_all (\<lambda>l. \<not> isFence l) (unfenced f ls)"
  by (induction ls arbitrary: f) auto

lemma set_unfenced: "set (unfenced f ls) \<subseteq> set ls"
  by (induction ls arbitrary: f) auto

subsection \<open>Blank texts\<close>

lemma trimEnd_Nil: "trimEnd s = [] \<longleftrightarrow> blank s"
  by (simp add: trimEnd_def blank_def dropWhile_eq_Nil_conv list_all_iff)

lemma trimStart_Nil: "trimStart s = [] \<longleftrightarrow> blank s"
  by (simp add: trimStart_def blank_def dropWhile_eq_Nil_conv list_all_iff)

lemma blank_dropWhile: "blank (dropWhile isSpace s) \<longleftrightarrow> blank s"
  by (induction s) (auto simp: blank_def)

lemma blank_rev: "blank (rev s) \<longleftrightarrow> blank s"
  by (simp add: blank_def list_all_iff)

lemma blank_trimEnd: "blank (trimEnd s) \<longleftrightarrow> blank s"
  by (simp add: trimEnd_def blank_rev blank_dropWhile)

lemma blank_trimStart: "blank (trimStart s) \<longleftrightarrow> blank s"
  by (simp add: trimStart_def blank_dropWhile)

lemma trim_Nil: "trim s = [] \<longleftrightarrow> blank s"
  by (simp add: trim_def trimStart_Nil blank_trimEnd)

lemma isSpace_LF: "isSpace LF"
  by (simp add: isSpace_def)

lemma blank_collapseNewlines: "blank (collapseNewlines n s) \<longleftrightarrow> blank s"
  by (induction s arbitrary: n) (auto simp: blank_def isSpace_LF)

lemma blank_normalizeBlock: "blank (normalizeBlock s) \<longleftrightarrow> blank s"
  by (simp add: normalizeBlock_def blank_collapseNewlines blank_trimStart blank_trimEnd)

lemma blank_append: "blank (a @ b) \<longleftrightarrow> blank a \<and> blank b"
  by (simp add: blank_def)

lemma blank_joinWith_LF: "blank (joinWith [LF] ls) \<longleftrightarrow> list_all blank ls"
  by (induction "[LF]" ls rule: joinWith.induct) (auto simp: blank_append, simp_all add: blank_def isSpace_LF)

lemma sectionize_no_heading:
  assumes "list_all (\<lambda>l. isHeading l = None) (unfenced False (mdLines md))"
  shows "sectionize md =
     (if list_all blank (unfenced False (mdLines md)) then []
      else [\<lparr>path = str ''intro'',
             sec_text = normalizeBlock (joinWith [LF] (unfenced False (mdLines md))),
             sec_title = None, parent = None\<rparr>])"
proof -
  let ?u = "unfenced False (mdLines md)"
  have "list_all (\<lambda>l. \<not> isFence l \<and> isHeading l = None) ?u"
    using assms unfenced_no_fence [of False "mdLines md"] by (simp add: list_all_iff)
  then have "foldl lineStep initialState ?u = initialState\<lparr>sectionBuf := sectionBuf initialState @ ?u\<rparr>"
    by (intro foldl_lineStep_plain) (simp_all add: initialState_def)
  moreover have "sectionize md = sectionizeLines ?u"
    using sectionizeLines_unfenced [of "mdLines md"] by (simp add: sectionize_def sectionizeLines_def)
  moreover have "trim (normalizeBlock (joinWith [LF] ?u)) = [] \<longleftrightarrow> list_all blank ?u"
    by (simp add: trim_Nil blank_normalizeBlock blank_joinWith_LF)
  ultimately show ?thesis
    by (simp add: sectionizeLines_def flush_def Let_def initialState_def currentPath_def
        currentTitle_def currentParent_def)
qed


text \<open>
  C2, as the code has it. A line inside a fenced block leaves the whole state of the
  sectionizer as it is, the heading context and the section buffer alike, and a fence marker
  only toggles the fence flag: neither reaches the buffer. The sections of a document are
  therefore those of its lines outside the fenced blocks.
\<close>

theorem fenced_lines_skipped:
  "(inFence st \<and> \<not> isFence line \<longrightarrow> lineStep st line = st) \<and>
   (isFence line \<longrightarrow> lineStep st line = st\<lparr>inFence := \<not> inFence st\<rparr>) \<and>
   sectionize md = sectionizeLines (unfenced False (mdLines md))"
  using sectionizeLines_unfenced [of "mdLines md"]
  by (simp add: lineStep_fence lineStep_inside sectionize_def sectionizeLines_def)

theorem fenced_lines_skipped_witness:
  "inFence (initialState\<lparr>inFence := True\<rparr>) \<and> \<not> isFence (str ''# code'') \<and>
   lineStep (initialState\<lparr>inFence := True\<rparr>) (str ''# code'') = initialState\<lparr>inFence := True\<rparr> \<and>
   isFence (str ''```js'') \<and>
   lineStep initialState (str ''```js'') = initialState\<lparr>inFence := True\<rparr> \<and>
   sectionize (str ''a'' @ [LF] @ str ''```'' @ [LF] @ str ''# code'' @ [LF] @ str ''```'' @ [LF] @ str ''b'') =
     sectionizeLines [str ''a'', str ''b'']"
proof -
  have a: "\<not> isFence (str ''# code'')" by code_simp
  have b: "isFence (str ''```js'')" by code_simp
  have c: "unfenced False (mdLines (str ''a'' @ [LF] @ str ''```'' @ [LF] @ str ''# code'' @ [LF] @ str ''```'' @ [LF] @ str ''b'')) = [str ''a'', str ''b'']"
    by code_simp
  have d: "inFence initialState = False" by (simp add: initialState_def)
  from fenced_lines_skipped [of "initialState\<lparr>inFence := True\<rparr>" "str ''# code''"
        "str ''a'' @ [LF] @ str ''```'' @ [LF] @ str ''# code'' @ [LF] @ str ''```'' @ [LF] @ str ''b''"]
    fenced_lines_skipped [of initialState "str ''```js''" "[]"] a b c d
  show ?thesis by simp
qed

text \<open>
  C2 as stated fails: the line \<open>code\<close> lies between two fence markers and is not part
  of the text of the section emitted.
\<close>

theorem fenced_text_dropped_counterexample:
  "sectionize (str ''a'' @ [LF] @ str ''```'' @ [LF] @ str ''code'' @ [LF] @ str ''```'' @ [LF] @ str ''b'') =
     [\<lparr>path = str ''intro'', sec_text = str ''a'' @ [LF] @ str ''b'', sec_title = None, parent = None\<rparr>] \<and>
   \<not> str_includes (str ''a'' @ [LF] @ str ''b'') (str ''code'')"
  by code_simp


text \<open>
  C8, as the code has it. The path follows the precedence: H2 and H3 give \<open>h2/h3\<close>; H3 and
  H1 without H2 give \<open>h1/h3\<close>; H2 without H3 gives \<open>h2\<close>; H3 alone gives \<open>h3\<close>; H1 alone
  gives \<open>h1\<close>; no heading gives \<open>intro\<close>. A document without heading lines yields no
  section when its lines outside the fenced blocks are all blank, and otherwise exactly one
  section, with the path \<open>intro\<close>, no title and no parent.
\<close>

theorem section_path_precedence:
  "currentPath \<lparr>h1 = a, h2 = Some b, h3 = Some c\<rparr> = slug b @ str ''/'' @ slug c \<and>
   currentPath \<lparr>h1 = Some a', h2 = None, h3 = Some c\<rparr> = slug a' @ str ''/'' @ slug c \<and>
   currentPath \<lparr>h1 = a, h2 = Some b, h3 = None\<rparr> = slug b \<and>
   currentPath \<lparr>h1 = None, h2 = None, h3 = Some c\<rparr> = slug c \<and>
   currentPath \<lparr>h1 = Some a', h2 = None, h3 = None\<rparr> = slug a' \<and>
   currentPath \<lparr>h1 = None, h2 = None, h3 = None\<rparr> = str ''intro'' \<and>
   (list_all (\<lambda>l. isHeading l = None) (mdLines md) \<longrightarrow>
      sectionize md =
        (if list_all blank (unfenced False (mdLines md)) then []
         else [\<lparr>path = str ''intro'',
                sec_text = normalizeBlock (joinWith [LF] (unfenced False (mdLines md))),
                sec_title = None, parent = None\<rparr>]))"
proof -
  have "list_all (\<lambda>l. isHeading l = None) (unfenced False (mdLines md))"
    if "list_all (\<lambda>l. isHeading l = None) (mdLines md)"
    using that set_unfenced [of False "mdLines md"] by (auto simp: list_all_iff)
  then show ?thesis
    by (simp add: currentPath_def sectionize_no_heading)
qed

theorem section_path_precedence_witness:
  "currentPath \<lparr>h1 = Some \<lparr>level = 1, slug = str ''a'', title = str ''A''\<rparr>,
                 h2 = Some \<lparr>level = 2, slug = str ''b'', title = str ''B''\<rparr>,
                 h3 = Some \<lparr>level = 3, slug = str ''c'', title = str ''C''\<rparr>\<rparr> = str ''b/c'' \<and>
   currentPath \<lparr>h1 = Some \<lparr>level = 1, slug = str ''a'', title = str ''A''\<rparr>, h2 = None,
                 h3 = Some \<lparr>level = 3, slug = str ''c'', title = str ''C''\<rparr>\<rparr> = str ''a/c'' \<and>
   list_all (\<lambda>l. isHeading l = None) (mdLines (str ''hello'')) \<and>
   sectionize (str ''hello'') = [\<lparr>path = str ''intro'', sec_text = str ''hello'', sec_title = None, parent = None\<rparr>]"
proof -
  have a: "list_all (\<lambda>l. isHeading l = None) (mdLines (str ''hello''))" by code_simp
  have b: "\<not> list_all blank (unfenced False (mdLines (str ''hello'')))" by code_simp
  have c: "normalizeBlock (joinWith [LF] (unfenced False (mdLines (str ''hello'')))) = str ''hello''" by code_simp
  from section_path_precedence [of "Some \<lparr>level = 1, slug = str ''a'', title = str ''A''\<rparr>"
      "\<lparr>level = 2, slug = str ''b'', title = str ''B''\<rparr>" "\<lparr>level = 3, slug = str ''c'', title = str ''C''\<rparr>"
      "\<lparr>level = 1, slug = str ''a'', title = str ''A''\<rparr>" "str ''hello''"] a b c
  show ?thesis by (simp add: str_def)
qed

text \<open>
  C8 as stated fails: this document has no heading line and its text is not blank, yet
  it yields no section, since all of it is fence markers and fenced lines.
\<close>

theorem fence_only_document_counterexample:
  "list_all (\<lambda>l. isHeading l = None) (mdLines (str ''```'' @ [LF] @ str ''foo'' @ [LF] @ str ''```'')) \<and>
   \<not> blank (str ''```'' @ [LF] @ str ''foo'' @ [LF] @ str ''```'') \<and>
   sectionize (str ''```'' @ [LF] @ str ''foo'' @ [LF] @ str ''```'') = []"
  by code_simp

subsection \<open>Chunks and their parent tag\<close>

text \<open>
  C6. Of the chunks a section gives, each has a parent tag if and only if the section was
  over the budget and the size splitter returned at least two blocks for it, and the tag is
  then \<open>source_file:section_path\<close>; a section that gives one chunk gives it without a
  tag. The section gives one chunk per block when it is split and one chunk otherwise.
\<close>

theorem parent_chunk_id_iff_split:
  "(\<forall>c \<in> set (sectionChunks ee ec opts bm sf sec).
      (parent_chunk_id (meta c) \<noteq> None \<longleftrightarrow>
         maxTokens opts < estimateTokens (sec_text sec) \<and>
         2 \<le> length (splitSectionBySize (contextualText sec) opts)) \<and>
      (parent_chunk_id (meta c) \<noteq> None \<longrightarrow>
         parent_chunk_id (meta c) = Some (sf @ str '':'' @ path sec))) \<and>
   (length (sectionChunks ee ec opts bm sf sec) = 1 \<longrightarrow>
      (\<forall>c \<in> set (sectionChunks ee ec opts bm sf sec). parent_chunk_id (meta c) = None)) \<and>
   length (sectionChunks ee ec opts bm sf sec) =
     (if maxTokens opts < estimateTokens (sec_text sec) \<and>
         2 \<le> length (splitSectionBySize (contextualText sec) opts)
      then length (splitSectionBySize (contextualText sec) opts) else 1)"
  by (auto simp: sectionChunks_def Let_def mkChunk_def)

theorem parent_chunk_id_iff_split_witness:
  "map (\<lambda>c. parent_chunk_id (meta c))
     (sectionChunks (\<lambda>s. []) (\<lambda>s. []) \<lparr>maxTokens = 4, overlapRatio = 15 / 100\<rparr>
       \<lparr>universe = None, species = None, subspecies = None\<rparr> (str ''f.md'')
       \<lparr>path = str ''b'', sec_text = str ''aaaaaaaaaaaa'' @ [LF, LF] @ str ''bbbbbbbbbbbb'',
        sec_title = Some (str ''B''), parent = None\<rparr>) =
   [Some (str ''f.md:b''), Some (str ''f.md:b'')]"
proof -
  let ?opts = "\<lparr>maxTokens = 4, overlapRatio = 15 / 100\<rparr>"
  let ?sec = "\<lparr>path = str ''b'', sec_text = str ''aaaaaaaaaaaa'' @ [LF, LF] @ str ''bbbbbbbbbbbb'',
        sec_title = Some (str ''B''), parent = None\<rparr>"
  let ?cs = "sectionChunks (\<lambda>s. []) (\<lambda>s. []) ?opts
       \<lparr>universe = None, species = None, subspecies = None\<rparr> (str ''f.md'') ?sec"
  have a: "estimateTokens (sec_text ?sec) = 7" by code_simp
  have b: "length (splitSectionBySize (contextualText ?sec) ?opts) = 2" by code_simp
  from parent_chunk_id_iff_split [of "\<lambda>s. []" "\<lambda>s. []" ?opts
      "\<lparr>universe = None, species = None, subspecies = None\<rparr>" "str ''f.md''" ?sec] a b
  have all: "\<forall>c \<in> set ?cs. parent_chunk_id (meta c) = Some (str ''f.md:b'')" and len: "length ?cs = 2"
    by (auto simp: str_def)
  from len obtain c1 c2 where cs: "?cs = [c1, c2]"
    by (auto simp: numeral_2_eq_2 length_Suc_conv)
  from all show ?thesis
    unfolding cs by simp
qed

subsection \<open>The overlap fragment\<close>

lemma overlapText_Nil: "overlapText r [] = []"
  by (simp add: overlapText_def)

lemma suffix_overlapText: "suffix (overlapText r s) s"
  by (simp add: overlapText_def Let_def suffix_drop)

lemma length_overlapText:
  assumes "0 \<le> r" "r \<le> 1"
  shows "int (length (overlapText r s)) = \<lfloor>rat_of_nat (length s) * r\<rfloor>"
proof -
  let ?n = "rat_of_nat (length s)"
  have "0 \<le> ?n * r" using assms by simp
  then have lo: "0 \<le> \<lfloor>?n * r\<rfloor>" by simp
  have "?n * r \<le> ?n * 1" using assms by (intro mult_left_mono) simp_all
  then have "\<lfloor>?n * r\<rfloor> \<le> \<lfloor>?n\<rfloor>" by (intro floor_mono) simp
  then have hi: "\<lfloor>?n * r\<rfloor> \<le> int (length s)" by simp
  have "int (length s - nat (int (length s) - f)) = f" if "0 \<le> f" "f \<le> int (length s)" for f
    using that by linarith
  from this [OF lo hi] show ?thesis by (simp add: overlapText_def Let_def)
qed

lemma joinWith_Nil: "joinWith sep [] = []"
  by simp

lemma normalizeBlock_Nil: "normalizeBlock [] = []"
  by (simp add: normalizeBlock_def trimStart_def trimEnd_def)

text \<open>
  C7. At a paragraph where the splitter commits its buffer (the running estimate is positive
  and the paragraph would exceed the budget) and seeds the next buffer, the step commits the
  normalised block, and the new buffer starts with the fragment, a suffix of that block whose
  length \<open>n\<close> satisfies \<open>0.10 * len - 1 < n \<le> 0.20 * len\<close> for an overlap ratio
  between 0.10 and 0.20, \<open>len\<close> being the length of the committed block.
\<close>

theorem overlap_fragment_bound:
  assumes "1 / 10 \<le> overlapRatio opts" and "overlapRatio opts \<le> 2 / 10"
    and "tokens st > 0" and "tokens st + estimateTokens p > maxTokens opts"
    and "trim (overlapText (overlapRatio opts) (normalizeBlock (joinWith [LF, LF] (buf st)))) \<noteq> []"
  shows "let committed = normalizeBlock (joinWith [LF, LF] (buf st));
             frag = overlapText (overlapRatio opts) committed
         in splitStep opts st p =
              \<lparr>out = out st @ [committed], buf = [frag, p],
               tokens = estimateTokens frag + estimateTokens p\<rparr> \<and>
            suffix frag committed \<and>
            rat_of_nat (length committed) * (1 / 10) - 1 < rat_of_nat (length frag) \<and>
            rat_of_nat (length frag) \<le> rat_of_nat (length committed) * (2 / 10)"
proof -
  define committed where "committed = normalizeBlock (joinWith [LF, LF] (buf st))"
  define frag where "frag = overlapText (overlapRatio opts) committed"
  let ?r = "overlapRatio opts"
  let ?n = "rat_of_nat (length committed)"
  have fne: "trim frag \<noteq> []"
    using assms(5) by (simp add: frag_def committed_def)
  have cne: "committed \<noteq> []"
    using fne by (auto simp: frag_def overlapText_Nil trim_def trimStart_def trimEnd_def)
  have bne: "buf st \<noteq> []"
    using cne by (auto simp: committed_def normalizeBlock_Nil)
  have step: "splitStep opts st p =
      \<lparr>out = out st @ [committed], buf = [frag, p], tokens = estimateTokens frag + estimateTokens p\<rparr>"
    using assms(3,4) fne cne bne
    by (simp add: splitStep_def Let_def commit_def committed_def [symmetric] frag_def [symmetric])
  have len: "int (length frag) = \<lfloor>?n * ?r\<rfloor>"
    unfolding frag_def using assms(1,2) by (intro length_overlapText) simp_all
  have "rat_of_int (int (length frag)) \<le> ?n * ?r"
    unfolding len by (rule of_int_floor_le)
  moreover have "?n * ?r \<le> ?n * (2 / 10)"
    using assms(2) by (intro mult_left_mono) simp_all
  ultimately have up: "rat_of_nat (length frag) \<le> ?n * (2 / 10)" by simp
  have "?n * ?r - 1 < rat_of_int (int (length frag))"
    unfolding len by linarith
  moreover have "?n * (1 / 10) \<le> ?n * ?r"
    using assms(1) by (intro mult_left_mono) simp_all
  ultimately have lo: "?n * (1 / 10) - 1 < rat_of_nat (length frag)" by simp
  show ?thesis
    using step lo up suffix_overlapText [of ?r committed]
    by (simp add: Let_def committed_def [symmetric] frag_def [symmetric])
qed

theorem overlap_fragment_bound_witness:
  "(1 / 10 :: rat) \<le> 15 / 100 \<and> (15 / 100 :: rat) \<le> 2 / 10 \<and>
   splitStep \<lparr>maxTokens = 4, overlapRatio = 15 / 100\<rparr>
     \<lparr>out = [], buf = [str ''B'', str ''aaaaaaaaaaaa''], tokens = 4\<rparr> (str ''bbbbbbbbbbbb'') =
     \<lparr>out = [str ''B'' @ [LF, LF] @ str ''aaaaaaaaaaaa''], buf = [str ''aa'', str ''bbbbbbbbbbbb''], tokens = 4\<rparr> \<and>
   rat_of_nat (length (str ''B'' @ [LF, LF] @ str ''aaaaaaaaaaaa'')) * (1 / 10) - 1 < rat_of_nat (length (str ''aa'')) \<and>
   rat_of_nat (length (str ''aa'')) \<le> rat_of_nat (length (str ''B'' @ [LF, LF] @ str ''aaaaaaaaaaaa'')) * (2 / 10)"
proof -
  let ?opts = "\<lparr>maxTokens = 4, overlapRatio = 15 / 100\<rparr>"
  let ?st = "\<lparr>out = [], buf = [str ''B'', str ''aaaaaaaaaaaa''], tokens = 4\<rparr>"
  let ?p = "str ''bbbbbbbbbbbb''"
  have h1: "1 / 10 \<le> overlapRatio ?opts" by simp
  have h2: "overlapRatio ?opts \<le> 2 / 10" by simp
  have h3: "tokens ?st > 0" by simp
  have h4: "tokens ?st + estimateTokens ?p > maxTokens ?opts" by code_simp
  have h5: "trim (overlapText (overlapRatio ?opts) (normalizeBlock (joinWith [LF, LF] (buf ?st)))) \<noteq> []"
    by code_simp
  have c: "normalizeBlock (joinWith [LF, LF] (buf ?st)) = str ''B'' @ [LF, LF] @ str ''aaaaaaaaaaaa''"
    by code_simp
  have f: "overlapText (overlapRatio ?opts) (str ''B'' @ [LF, LF] @ str ''aaaaaaaaaaaa'') = str ''aa''"
    by code_simp
  have e: "estimateTokens (str ''aa'') + estimateTokens ?p = 4" by code_simp
  note s = overlap_fragment_bound [OF h1 h2 h3 h4 h5]
  show ?thesis
    using s unfolding Let_def c f e by simp
qed

subsection \<open>The importance score\<close>

lemma importance_chain:
  fixes i0 :: rat
  shows "(if R then (if Q then (if P then i0 + c else i0) + d else (if P then i0 + c else i0)) - e
          else (if Q then (if P then i0 + c else i0) + d else (if P then i0 + c else i0))) =
         i0 + (if P then c else 0) + (if Q then d else 0) - (if R then e else 0)"
  by simp

text \<open>
  C9. The importance that \<open>analyzeContent\<close> returns is the formula of the specification:
  0.5, plus the smaller of 0.3 and 0.02 per match of \<open>[A-Z][a-z]+\<close>, plus the smaller of 0.2
  and 0.05 per emphasized span, plus 0.15 when the quote-line ratio exceeds 0.2, plus 0.1
  when the list-line ratio exceeds 0.3, minus 0.2 when the text has fewer than 100
  characters, clamped to the interval from 0.1 to 1. It is a function of the text alone.
\<close>

theorem importance_formula:
  "snd (analyzeContent txt) = specImportance txt \<and>
   1 / 10 \<le> snd (analyzeContent txt) \<and> snd (analyzeContent txt) \<le> 1"
proof -
  have eq: "snd (analyzeContent txt) = specImportance txt"
    unfolding analyzeContent_def specImportance_def quoteLineRatio_def listLineRatio_def Let_def snd_conv
    by (simp only: importance_chain mult.commute)
  have "(1 / 10 :: rat) \<le> max (1 / 10) (min 1 x) \<and> max (1 / 10) (min 1 x) \<le> 1" for x :: rat
    by simp
  then show ?thesis
    unfolding eq specImportance_def by blast
qed

theorem importance_formula_witness:
  "snd (analyzeContent (str ''> Hello World'')) = 49 / 100"
proof -
  have "specImportance (str ''> Hello World'') = 49 / 100" by code_simp
  with importance_formula [of "str ''> Hello World''"] show ?thesis by simp
qed

subsection \<open>Filtering and ranking\<close>

text \<open>
  C10. Under a minimum importance above 0, a hit whose metadata parses to a value other than
  \<open>null\<close> that has no importance score (an object without the field, or a value that is
  no object) is not among the filtered hits. A hit on whose metadata \<open>JSON.parse\<close> throws,
  and a hit whose metadata parses to \<open>null\<close>, stays among them, whatever the filters are:
  reading a property of \<open>null\<close> throws, and the \<open>catch\<close> keeps the hit.
\<close>

theorem min_importance_missing_score:
  assumes "f_min_importance f = Some m" and "0 < m"
  shows "(h_metadata h = Some s \<and> s \<noteq> [] \<and>
            (parse s = Some (JObject md) \<and> m_importance_score md = None \<or> parse s = Some JOther) \<longrightarrow>
            h \<notin> set (applyFilters parse hs f)) \<and>
         (h_metadata h = Some s \<and> s \<noteq> [] \<and> (parse s = None \<or> parse s = Some JNull) \<and> h \<in> set hs \<longrightarrow>
            h \<in> set (applyFilters parse hs f'))"
  using assms
  by (auto simp: applyFilters_def noKeys_def keepHit_def hitMeta_def truthyNum_def orNum_def
      emptyMeta_def)

theorem min_importance_missing_score_witness:
  "\<lparr>h_id = str ''a'', h_path = str ''p'', h_chunk = str ''text'', h_distance = 1, h_score = 1 / 2,
     h_metadata = Some (str ''{}'')\<rparr>
     \<notin> set (applyFilters
         (\<lambda>s. if s = str ''{}'' then Some (JObject emptyMeta)
              else if s = str ''null'' then Some JNull else None)
         [\<lparr>h_id = str ''a'', h_path = str ''p'', h_chunk = str ''text'', h_distance = 1, h_score = 1 / 2,
           h_metadata = Some (str ''{}'')\<rparr>,
          \<lparr>h_id = str ''b'', h_path = str ''p'', h_chunk = str ''text'', h_distance = 1, h_score = 1 / 2,
           h_metadata = Some (str ''{'')\<rparr>,
          \<lparr>h_id = str ''c'', h_path = str ''p'', h_chunk = str ''text'', h_distance = 1, h_score = 1 / 2,
           h_metadata = Some (str ''null'')\<rparr>]
         \<lparr>f_universe = None, f_species = None, f_subspecies = None, f_content_type = None,
          f_min_importance = Some (1 / 2)\<rparr>) \<and>
   \<lparr>h_id = str ''b'', h_path = str ''p'', h_chunk = str ''text'', h_distance = 1, h_score = 1 / 2,
     h_metadata = Some (str ''{'')\<rparr>
     \<in> set (applyFilters
         (\<lambda>s. if s = str ''{}'' then Some (JObject emptyMeta)
              else if s = str ''null'' then Some JNull else None)
         [\<lparr>h_id = str ''a'', h_path = str ''p'', h_chunk = str ''text'', h_distance = 1, h_score = 1 / 2,
           h_metadata = Some (str ''{}'')\<rparr>,
          \<lparr>h_id = str ''b'', h_path = str ''p'', h_chunk = str ''text'', h_distance = 1, h_score = 1 / 2,
           h_metadata = Some (str ''{'')\<rparr>,
          \<lparr>h_id = str ''c'', h_path = str ''p'', h_chunk = str ''text'', h_distance = 1, h_score = 1 / 2,
           h_metadata = Some (str ''null'')\<rparr>]
         \<lparr>f_universe = None, f_species = None, f_subspecies = None, f_content_type = None,
          f_min_importance = Some (1 / 2)\<rparr>) \<and>
   \<lparr>h_id = str ''c'', h_path = str ''p'', h_chunk = str ''text'', h_distance = 1, h_score = 1 / 2,
     h_metadata = Some (str ''null'')\<rparr>
     \<in> set (applyFilters
         (\<lambda>s. if s = str ''{}'' then Some (JObject emptyMeta)
              else if s = str ''null'' then Some JNull else None)
         [\<lparr>h_id = str ''a'', h_path = str ''p'', h_chunk = str ''text'', h_distance = 1, h_score = 1 / 2,
           h_metadata = Some (str ''{}'')\<rparr>,
          \<lparr>h_id = str ''b'', h_path = str ''p'', h_chunk = str ''text'', h_distance = 1, h_score = 1 / 2,
           h_metadata = Some (str ''{'')\<rparr>,
          \<lparr>h_id = str ''c'', h_path = str ''p'', h_chunk = str ''text'', h_distance = 1, h_score = 1 / 2,
           h_metadata = Some (str ''null'')\<rparr>]
         \<lparr>f_universe = None, f_species = None, f_subspecies = None, f_content_type = None,
          f_min_importance = Some (1 / 2)\<rparr>)"
proof -
  let ?parse = "\<lambda>s. if s = str ''{}'' then Some (JObject emptyMeta)
              else if s = str ''null'' then Some JNull else None"
  let ?a = "\<lparr>h_id = str ''a'', h_path = str ''p'', h_chunk = str ''text'', h_distance = 1, h_score = 1 / 2,
     h_metadata = Some (str ''{}'')\<rparr>"
  let ?b = "\<lparr>h_id = str ''b'', h_path = str ''p'', h_chunk = str ''text'', h_distance = 1, h_score = 1 / 2,
     h_metadata = Some (str ''{'')\<rparr>"
  let ?c = "\<lparr>h_id = str ''c'', h_path = str ''p'', h_chunk = str ''text'', h_distance = 1, h_score = 1 / 2,
     h_metadata = Some (str ''null'')\<rparr>"
  let ?f = "\<lparr>f_universe = None, f_species = None, f_subspecies = None, f_content_type = None,
          f_min_importance = Some (1 / 2)\<rparr>"
  have m: "f_min_importance ?f = Some (1 / 2)" "(0::rat) < 1 / 2" by simp_all
  have e: "m_importance_score emptyMeta = None" by (simp add: emptyMeta_def)
  have p: "?parse (str ''{}'') = Some (JObject emptyMeta)" "?parse (str ''{'') = None"
    "?parse (str ''null'') = Some JNull" "str ''{}'' \<noteq> []" "str ''{'' \<noteq> []" "str ''null'' \<noteq> []"
    by (simp_all add: str_def)
  from min_importance_missing_score [OF m, of ?a "str ''{}''" ?parse emptyMeta "[?a, ?b, ?c]" ?f]
    min_importance_missing_score [OF m, of ?b "str ''{''" ?parse emptyMeta "[?a, ?b, ?c]" ?f]
    min_importance_missing_score [OF m, of ?c "str ''null''" ?parse emptyMeta "[?a, ?b, ?c]" ?f] e p
  show ?thesis by simp
qed

theorem null_metadata_kept_counterexample:
  "(\<lambda>s. if s = str ''null'' then Some JNull else None) (str ''null'') = Some JNull \<and>
   applyFilters (\<lambda>s. if s = str ''null'' then Some JNull else None)
     [\<lparr>h_id = str ''c'', h_path = str ''p'', h_chunk = str ''text'', h_distance = 1, h_score = 1 / 2,
       h_metadata = Some (str ''null'')\<rparr>]
     \<lparr>f_universe = None, f_species = None, f_subspecies = None, f_content_type = None,
      f_min_importance = Some (1 / 2)\<rparr> =
     [\<lparr>h_id = str ''c'', h_path = str ''p'', h_chunk = str ''text'', h_distance = 1, h_score = 1 / 2,
       h_metadata = Some (str ''null'')\<rparr>]"
  by (simp add: applyFilters_def noKeys_def keepHit_def hitMeta_def str_def)







subsection \<open>The store: a batch is written whole or not at all\<close>

lemma upsertRows_bad_dim:
  "\<exists>r \<in> set rows. length (u_embedding r) \<noteq> n \<Longrightarrow> \<exists>e. upsertRows n d rows = Inl e"
proof (induction rows arbitrary: d)
  case Nil
  then show ?case by simp
next
  case (Cons r rs)
  show ?case
  proof (cases "upsertRow n d r")
    case (Inl e)
    then show ?thesis by simp
  next
    case (Inr d')
    then have "length (u_embedding r) = n"
      by (auto simp: upsertRow_def split: if_splits)
    with Cons.prems have "\<exists>r \<in> set rs. length (u_embedding r) \<noteq> n" by auto
    from Cons.IH [OF this, of d'] Inr show ?thesis by simp
  qed
qed

lemma getDim_db: "getDim s = (r, s1) \<Longrightarrow> db s1 = db s"
  by (auto simp: getDim_def split: if_splits option.splits)

lemma upsertMany_failure_db:
  "fst (upsertMany s rows) \<noteq> None \<Longrightarrow> db (snd (upsertMany s rows)) = db s"
  by (auto simp: upsertMany_def dest: getDim_db split: prod.splits sum.splits if_splits)

lemma map_rid_upsertChunkMeta:
  "list_ex (\<lambda>x. c_id x = u_id r) t \<Longrightarrow> map rid (upsertChunkMeta t r) = map rid t"
  by (simp add: upsertChunkMeta_def)

lemma upsertChunkMeta_keeps:
  assumes "x \<in> set t"
  shows "\<exists>x' \<in> set (upsertChunkMeta t r). c_id x' = c_id x \<and> rid x' = rid x"
proof (cases "list_ex (\<lambda>x. c_id x = u_id r) t")
  case True
  define f where "f = (\<lambda>x :: ChunkRow. if c_id x = u_id r
      then x\<lparr>c_path := u_path r, c_chunk := u_chunk r, c_sha := u_sha r, c_metadata := u_metadata r\<rparr>
      else x)"
  have "upsertChunkMeta t r = map f t"
    using True by (simp add: upsertChunkMeta_def f_def)
  moreover have "f x \<in> set (map f t)" using assms by simp
  moreover have "c_id (f x) = c_id x \<and> rid (f x) = rid x" by (simp add: f_def)
  ultimately show ?thesis by metis
next
  case False
  then show ?thesis using assms by (auto simp: upsertChunkMeta_def)
qed

lemma selectRid_Some:
  "selectRid t i = Some k \<Longrightarrow> \<exists>x \<in> set t. c_id x = i \<and> rid x = k"
  by (auto simp: selectRid_def find_Some_iff)

lemma map_fst_updateVec: "map fst (snd (updateVec v k e)) = map fst v"
  by (induction v) (auto simp: updateVec_def)

lemma fst_updateVec: "fst (updateVec v k e) \<noteq> 0 \<Longrightarrow> k \<in> set (map fst v)"
  by (auto simp: updateVec_def filter_empty_conv)

lemma keys_after_vector_write:
  "set (map fst (if fst (updateVec v k e) = 0 then insertVec (snd (updateVec v k e)) k e
                 else snd (updateVec v k e))) = insert k (set (map fst v))"
proof (cases "fst (updateVec v k e) = 0")
  case True
  then show ?thesis
    using map_fst_updateVec [of v k e] by (simp add: insertVec_def)
next
  case False
  then show ?thesis
    using map_fst_updateVec [of v k e] fst_updateVec [of v k e] by auto
qed

lemma vecKeys_upsertRow:
  assumes "upsertRow n d r = Inr d'"
  shows "\<exists>k. selectRid (chunks d') (u_id r) = Some k \<and> vecKeys d' = insert k (vecKeys d) \<and>
             chunks d' = upsertChunkMeta (chunks d) r"
proof -
  from assms obtain k v where k: "selectRid (upsertChunkMeta (chunks d) r) (u_id r) = Some k"
    and v: "vec_chunks d = Some v"
    and d': "d' = d\<lparr>chunks := upsertChunkMeta (chunks d) r,
                    vec_chunks := Some (if fst (updateVec v k (u_embedding r)) = 0
                                        then insertVec (snd (updateVec v k (u_embedding r))) k (u_embedding r)
                                        else snd (updateVec v k (u_embedding r)))\<rparr>"
    by (auto simp: upsertRow_def Let_def split: if_splits option.splits)
  have "vecKeys d' = insert k (vecKeys d)"
    unfolding vecKeys_def d' using keys_after_vector_write [of v k "u_embedding r"] v by simp
  with k d' show ?thesis by simp
qed

lemma upsertRow_written:
  assumes "upsertRow n d r = Inr d'"
  shows "\<exists>x \<in> set (chunks d'). c_id x = u_id r \<and> rid x \<in> vecKeys d'"
proof -
  from vecKeys_upsertRow [OF assms] obtain k where
    k: "selectRid (chunks d') (u_id r) = Some k" "vecKeys d' = insert k (vecKeys d)" by blast
  from selectRid_Some [OF k(1)] k(2) show ?thesis by auto
qed

lemma upsertRow_keeps:
  assumes "upsertRow n d r = Inr d'" and "x \<in> set (chunks d)" and "rid x \<in> vecKeys d"
  shows "\<exists>x' \<in> set (chunks d'). c_id x' = c_id x \<and> rid x' = rid x \<and> rid x' \<in> vecKeys d'"
proof -
  from vecKeys_upsertRow [OF assms(1)] obtain k where
    k: "vecKeys d' = insert k (vecKeys d)" "chunks d' = upsertChunkMeta (chunks d) r" by blast
  from upsertChunkMeta_keeps [OF assms(2), of r] obtain x' where
    "x' \<in> set (upsertChunkMeta (chunks d) r)" "c_id x' = c_id x" "rid x' = rid x" by blast
  with k assms(3) show ?thesis by auto
qed

lemma upsertRows_keeps:
  "upsertRows n d rs = Inr d' \<Longrightarrow> x \<in> set (chunks d) \<Longrightarrow> rid x \<in> vecKeys d \<Longrightarrow>
   \<exists>x' \<in> set (chunks d'). c_id x' = c_id x \<and> rid x' = rid x \<and> rid x' \<in> vecKeys d'"
proof (induction rs arbitrary: d x)
  case Nil
  then show ?case by auto
next
  case (Cons r rs)
  from Cons.prems(1) obtain d1 where d1: "upsertRow n d r = Inr d1" "upsertRows n d1 rs = Inr d'"
    by (auto split: sum.splits)
  from upsertRow_keeps [OF d1(1) Cons.prems(2,3)] obtain x1 where
    x1: "x1 \<in> set (chunks d1)" "c_id x1 = c_id x" "rid x1 = rid x" "rid x1 \<in> vecKeys d1" by blast
  from Cons.IH [OF d1(2) x1(1) x1(4)] x1(2,3) show ?case by auto
qed

lemma upsertRows_written:
  "upsertRows n d rs = Inr d' \<Longrightarrow> r \<in> set rs \<Longrightarrow>
   \<exists>x \<in> set (chunks d'). c_id x = u_id r \<and> rid x \<in> vecKeys d'"
proof (induction rs arbitrary: d)
  case Nil
  then show ?case by simp
next
  case (Cons a rs)
  from Cons.prems(1) obtain d1 where d1: "upsertRow n d a = Inr d1" "upsertRows n d1 rs = Inr d'"
    by (auto split: sum.splits)
  show ?case
  proof (cases "r \<in> set rs")
    case True
    from Cons.IH [OF d1(2) True] show ?thesis .
  next
    case False
    with Cons.prems(2) have ra: "r = a" by simp
    from upsertRow_written [OF d1(1)] obtain x where
      x: "x \<in> set (chunks d1)" "c_id x = u_id a" "rid x \<in> vecKeys d1" by blast
    from upsertRows_keeps [OF d1(2) x(1) x(3)] x(2) ra show ?thesis by auto
  qed
qed

lemma find_snoc: "find P xs = None \<Longrightarrow> find P (xs @ [y]) = (if P y then Some y else None)"
  by (induction xs) (auto split: if_splits)

lemma rids_upsertRow:
  assumes "upsertRow n d r = Inr d'" and "rids d = vecKeys d"
  shows "rids d' = vecKeys d'"
proof -
  from vecKeys_upsertRow [OF assms(1)] obtain k where
    k: "selectRid (chunks d') (u_id r) = Some k" "vecKeys d' = insert k (vecKeys d)"
       "chunks d' = upsertChunkMeta (chunks d) r" by blast
  from selectRid_Some [OF k(1)] have kin: "k \<in> rids d'" by (auto simp: rids_def)
  show ?thesis
  proof (cases "list_ex (\<lambda>x. c_id x = u_id r) (chunks d)")
    case True
    then have "rids d' = rids d"
      using k(3) by (simp add: rids_def map_rid_upsertChunkMeta)
    with kin k(2) assms(2) show ?thesis by auto
  next
    case False
    then have c: "chunks d' = chunks d @ [\<lparr>rid = nextRid (chunks d), c_id = u_id r, c_path = u_path r,
        c_chunk = u_chunk r, c_sha = u_sha r, c_metadata = u_metadata r\<rparr>]"
      using k(3) by (simp add: upsertChunkMeta_def)
    from False have "find (\<lambda>x. c_id x = u_id r) (chunks d) = None"
      by (simp add: find_None_iff list_ex_iff)
    then have "k = nextRid (chunks d)"
      using k(1) by (simp add: selectRid_def c find_snoc)
    then show ?thesis
      using k(2) assms(2) by (auto simp: rids_def c)
  qed
qed

lemma rids_upsertRows:
  "upsertRows n d rs = Inr d' \<Longrightarrow> rids d = vecKeys d \<Longrightarrow> rids d' = vecKeys d'"
proof (induction rs arbitrary: d)
  case Nil
  then show ?case by simp
next
  case (Cons a rs)
  from Cons.prems(1) obtain d1 where d1: "upsertRow n d a = Inr d1" "upsertRows n d1 rs = Inr d'"
    by (auto split: sum.splits)
  from Cons.IH [OF d1(2) rids_upsertRow [OF d1(1) Cons.prems(2)]] show ?case .
qed

lemma new_keys_upsertRow:
  assumes "upsertRow n d r = Inr d'"
  shows "rids d \<subseteq> rids d' \<and> vecKeys d' \<subseteq> vecKeys d \<union> rids d'"
proof -
  from vecKeys_upsertRow [OF assms] obtain k where
    k: "selectRid (chunks d') (u_id r) = Some k" "vecKeys d' = insert k (vecKeys d)"
       "chunks d' = upsertChunkMeta (chunks d) r" by blast
  from selectRid_Some [OF k(1)] have "k \<in> rids d'" by (auto simp: rids_def)
  moreover have "rids d \<subseteq> rids d'"
  proof
    fix i assume "i \<in> rids d"
    then obtain x where "x \<in> set (chunks d)" "rid x = i" by (auto simp: rids_def)
    with upsertChunkMeta_keeps [of x "chunks d" r] k(3) obtain x' where
      "x' \<in> set (chunks d')" "rid x' = i" by auto
    then show "i \<in> rids d'"
      by (auto simp: rids_def)
  qed
  ultimately show ?thesis using k(2) by auto
qed

lemma new_keys_upsertRows:
  "upsertRows n d rs = Inr d' \<Longrightarrow> rids d \<subseteq> rids d' \<and> vecKeys d' \<subseteq> vecKeys d \<union> rids d'"
proof (induction rs arbitrary: d)
  case Nil
  then show ?case by simp
next
  case (Cons a rs)
  from Cons.prems(1) obtain d1 where d1: "upsertRow n d a = Inr d1" "upsertRows n d1 rs = Inr d'"
    by (auto split: sum.splits)
  from new_keys_upsertRow [OF d1(1)] Cons.IH [OF d1(2)] show ?case by blast
qed

lemma upsertMany_success:
  assumes "upsertMany s rows = (None, s')"
  shows "\<exists>n. upsertRows n (db s) rows = Inr (db s')"
proof -
  obtain r s1 where g: "getDim s = (r, s1)" by (cases "getDim s")
  from assms g obtain n d' where "r = Inr n" "upsertRows n (db s1) rows = Inr d'" "s' = s1\<lparr>db := d'\<rparr>"
    by (auto simp: upsertMany_def split: sum.splits if_splits)
  with getDim_db [OF g] show ?thesis by auto
qed

text \<open>
  C3. When a row of the batch has an embedding whose length is not the dimension of the
  store, \<open>upsertMany\<close> fails; whenever it fails, the database is the one before the call,
  chunk records and vectors alike. After a call that succeeds, every row of the batch has a
  chunk record under its id and a vector entry at the row id of that record, every vector
  entry that was not there before sits at the row id of a chunk record, and a database in
  which chunk records and vector entries had the same row ids still has that property.
\<close>

theorem upsertMany_atomic_and_paired:
  "(getDim s = (Inr n, s1) \<and> (\<exists>r \<in> set rows. length (u_embedding r) \<noteq> n) \<longrightarrow>
      fst (upsertMany s rows) \<noteq> None) \<and>
   (fst (upsertMany s rows) \<noteq> None \<longrightarrow> db (snd (upsertMany s rows)) = db s) \<and>
   (upsertMany s rows = (None, s') \<longrightarrow>
      (\<forall>r \<in> set rows. \<exists>x \<in> set (chunks (db s')). c_id x = u_id r \<and> rid x \<in> vecKeys (db s')) \<and>
      vecKeys (db s') \<subseteq> vecKeys (db s) \<union> rids (db s') \<and>
      (rids (db s) = vecKeys (db s) \<longrightarrow> rids (db s') = vecKeys (db s')))"
proof -
  have a: "fst (upsertMany s rows) \<noteq> None"
    if "getDim s = (Inr n, s1)" "\<exists>r \<in> set rows. length (u_embedding r) \<noteq> n"
    using that upsertRows_bad_dim [OF that(2), of "db s1"]
    by (auto simp: upsertMany_def)
  have b: "(\<forall>r \<in> set rows. \<exists>x \<in> set (chunks (db s')). c_id x = u_id r \<and> rid x \<in> vecKeys (db s')) \<and>
      vecKeys (db s') \<subseteq> vecKeys (db s) \<union> rids (db s') \<and>
      (rids (db s) = vecKeys (db s) \<longrightarrow> rids (db s') = vecKeys (db s'))"
    if "upsertMany s rows = (None, s')"
  proof -
    from upsertMany_success [OF that] obtain n where n: "upsertRows n (db s) rows = Inr (db s')" ..
    show ?thesis
      using upsertRows_written [OF n] rids_upsertRows [OF n] new_keys_upsertRows [OF n] by blast
  qed
  show ?thesis
    using a b upsertMany_failure_db [of s rows] by blast
qed

theorem upsertMany_atomic_and_paired_witness:
  "getDim \<lparr>db = \<lparr>meta_dim = Some 2, chunks = [], vec_chunks = Some []\<rparr>, dim = None\<rparr> =
     (Inr 2, \<lparr>db = \<lparr>meta_dim = Some 2, chunks = [], vec_chunks = Some []\<rparr>, dim = Some 2\<rparr>) \<and>
   upsertMany \<lparr>db = \<lparr>meta_dim = Some 2, chunks = [], vec_chunks = Some []\<rparr>, dim = None\<rparr>
     [\<lparr>u_id = str ''a'', u_path = str ''f.md'', u_chunk = str ''text'', u_embedding = [1, 0], u_sha = str ''s'',
       u_metadata = None\<rparr>,
      \<lparr>u_id = str ''b'', u_path = str ''f.md'', u_chunk = str ''more'', u_embedding = [1], u_sha = str ''t'',
       u_metadata = None\<rparr>] =
     (Some (BadDim 1 2),
      \<lparr>db = \<lparr>meta_dim = Some 2, chunks = [], vec_chunks = Some []\<rparr>, dim = Some 2\<rparr>) \<and>
   upsertMany \<lparr>db = \<lparr>meta_dim = Some 2, chunks = [], vec_chunks = Some []\<rparr>, dim = None\<rparr>
     [\<lparr>u_id = str ''a'', u_path = str ''f.md'', u_chunk = str ''text'', u_embedding = [1, 0], u_sha = str ''s'',
       u_metadata = None\<rparr>] =
     (None,
      \<lparr>db = \<lparr>meta_dim = Some 2,
              chunks = [\<lparr>rid = 1, c_id = str ''a'', c_path = str ''f.md'', c_chunk = str ''text'', c_sha = str ''s'',
                         c_metadata = None\<rparr>],
              vec_chunks = Some [(1, [1, 0])]\<rparr>,
        dim = Some 2\<rparr>) \<and>
   rids \<lparr>meta_dim = Some 2,
         chunks = [\<lparr>rid = 1, c_id = str ''a'', c_path = str ''f.md'', c_chunk = str ''text'', c_sha = str ''s'',
                    c_metadata = None\<rparr>],
         vec_chunks = Some [(1, [1, 0])]\<rparr> =
   vecKeys \<lparr>meta_dim = Some 2,
         chunks = [\<lparr>rid = 1, c_id = str ''a'', c_path = str ''f.md'', c_chunk = str ''text'', c_sha = str ''s'',
                    c_metadata = None\<rparr>],
         vec_chunks = Some [(1, [1, 0])]\<rparr>"
proof -
  let ?d = "\<lparr>meta_dim = Some 2, chunks = [], vec_chunks = Some []\<rparr>"
  let ?s = "\<lparr>db = ?d, dim = None\<rparr>"
  let ?a = "\<lparr>u_id = str ''a'', u_path = str ''f.md'', u_chunk = str ''text'', u_embedding = [1, 0], u_sha = str ''s'',
       u_metadata = None\<rparr>"
  let ?b = "\<lparr>u_id = str ''b'', u_path = str ''f.md'', u_chunk = str ''more'', u_embedding = [1], u_sha = str ''t'',
       u_metadata = None\<rparr>"
  let ?d' = "\<lparr>meta_dim = Some 2,
         chunks = [\<lparr>rid = 1, c_id = str ''a'', c_path = str ''f.md'', c_chunk = str ''text'', c_sha = str ''s'',
                    c_metadata = None\<rparr>],
         vec_chunks = Some [(1, [1, 0])]\<rparr>"
  have g: "getDim ?s = (Inr 2, \<lparr>db = ?d, dim = Some 2\<rparr>)" by code_simp
  have bad: "upsertMany ?s [?a, ?b] = (Some (BadDim 1 2), \<lparr>db = ?d, dim = Some 2\<rparr>)" by code_simp
  have good: "upsertMany ?s [?a] = (None, \<lparr>db = ?d', dim = Some 2\<rparr>)" by code_simp
  have e: "rids ?d = vecKeys ?d" by (simp add: rids_def vecKeys_def)
  from upsertMany_atomic_and_paired [of ?s 2 "\<lparr>db = ?d, dim = Some 2\<rparr>" "[?a]" "\<lparr>db = ?d', dim = Some 2\<rparr>"]
    good e
  have "rids ?d' = vecKeys ?d'" by simp
  moreover
  from upsertMany_atomic_and_paired [of ?s 2 "\<lparr>db = ?d, dim = Some 2\<rparr>" "[?a, ?b]" ?s] g
  have "db (snd (upsertMany ?s [?a, ?b])) = db ?s" by simp
  ultimately show ?thesis using g bad good by simp
qed

subsection \<open>The ids that bake assigns\<close>

lemma keyFields_sectionChunks:
  "map keyFields (sectionChunks ee ec opts bm sf sec) =
     (if maxTokens opts < estimateTokens (sec_text sec) \<and>
         2 \<le> length (splitSectionBySize (contextualText sec) opts)
      then replicate (length (splitSectionBySize (contextualText sec) opts))
             (sf, path sec, Some (sf @ str '':'' @ path sec))
      else [(sf, path sec, None)])"
  by (auto simp: sectionChunks_def Let_def mkChunk_def keyFields_def comp_def map_replicate_const)

lemma keyFields_chunkMarkdownByMeaning:
  "map keyFields (chunkMarkdownByMeaning ee ec md sf bm options) =
     concat (map (\<lambda>sec. map keyFields (sectionChunks ee ec (withDefaults options) bm sf sec))
               (sectionize md))"
  by (simp add: chunkMarkdownByMeaning_def map_concat comp_def)

lemma chunkKey_keyFields:
  "chunkKey j c = (case keyFields c of (sf, p, par) \<Rightarrow>
      sf @ str '':'' @ p @ (if par \<noteq> None \<and> the par \<noteq> [] then str '':'' @ showNat j else []))"
  by (simp add: chunkKey_def keyFields_def Let_def)

lemma map_enumerate_comp:
  "map (\<lambda>(j, c). f j (g c)) (enumerate n cs) = map (\<lambda>(j, t). f j t) (enumerate n (map g cs))"
  by (induction cs arbitrary: n) auto

lemma u_id_bakeRows:
  "map u_id (bakeRows env rel cs vs) =
     map (\<lambda>(j, t). sha1 env (case t of (sf, p, par) \<Rightarrow>
            sf @ str '':'' @ p @ (if par \<noteq> None \<and> the par \<noteq> [] then str '':'' @ showNat j else [])))
         (enumerate 0 (map keyFields cs))"
proof -
  have "map u_id (bakeRows env rel cs vs) = map (\<lambda>(j, c). sha1 env (chunkKey j c)) (enumerate 0 cs)"
    by (simp add: bakeRows_def comp_def case_prod_unfold)
  also have "\<dots> = map (\<lambda>(j, c). (\<lambda>j t. sha1 env (case t of (sf, p, par) \<Rightarrow>
            sf @ str '':'' @ p @ (if par \<noteq> None \<and> the par \<noteq> [] then str '':'' @ showNat j else []))) j (keyFields c))
         (enumerate 0 cs)"
    by (simp add: chunkKey_keyFields)
  also have "\<dots> = map (\<lambda>(j, t). sha1 env (case t of (sf, p, par) \<Rightarrow>
            sf @ str '':'' @ p @ (if par \<noteq> None \<and> the par \<noteq> [] then str '':'' @ showNat j else [])))
         (enumerate 0 (map keyFields cs))"
    by (rule map_enumerate_comp)
  finally show ?thesis .
qed

lemma nth_bakeRows:
  "j < length batch \<Longrightarrow> u_id (bakeRows env rel batch vs ! j) = sha1 env (chunkKey j (batch ! j))"
  by (simp add: bakeRows_def nth_enumerate_eq)

text \<open>
  Two chunks of one section, tagged as blocks of a split, that stand at the same position
  of two batches get the same id.
\<close>

lemma same_position_same_id:
  assumes "j < length batch" and "j < length batch'"
    and "keyFields (batch ! j) = keyFields (batch' ! j)"
  shows "u_id (bakeRows env rel batch vs ! j) = u_id (bakeRows env rel' batch' vs' ! j)"
  using assms by (simp add: nth_bakeRows chunkKey_keyFields)

lemma tableDoc_sections:
  "map (\<lambda>s. (path s, estimateTokens (sec_text s),
      length (splitSectionBySize (contextualText s) (withDefaults bakeOptions))))
     (sectionize tableDoc) = [(str ''intro'', 3, 1), (str ''b'', 807, 2)]"
  unfolding tableDoc_def by code_simp

text \<open>
  C1, at the document \<open>tableDoc\<close> in the file \<open>f.md\<close>. Its chunks are the introduction,
  without a parent tag, and the two blocks into which the section \<open>B\<close> is split, tagged
  \<open>f.md:b\<close>, all in one batch. The blocks are the first and the second of the split, yet
  the strings hashed into their ids end in \<open>:1\<close> and \<open>:2\<close>: the index is the position in the
  batch, not the position within the section.
\<close>

theorem chunk_id_uses_batch_index:
  "map keyFields (fileChunks env bm (str ''f.md'', tableDoc)) =
     [(str ''f.md'', str ''intro'', None), (str ''f.md'', str ''b'', Some (str ''f.md:b'')), (str ''f.md'', str ''b'', Some (str ''f.md:b''))] \<and>
   batches BATCH (fileChunks env bm (str ''f.md'', tableDoc)) = [fileChunks env bm (str ''f.md'', tableDoc)] \<and>
   map u_id (bakeRows env (str ''f.md'') (fileChunks env bm (str ''f.md'', tableDoc)) vs) =
     [sha1 env (str ''f.md:intro''), sha1 env (str ''f.md:b:1''), sha1 env (str ''f.md:b:2'')]"
proof -
  let ?opts = "withDefaults bakeOptions"
  obtain s0 s1 where secs: "sectionize tableDoc = [s0, s1]"
    and s0: "path s0 = str ''intro''" "estimateTokens (sec_text s0) = 3"
    and s1: "path s1 = str ''b''" "estimateTokens (sec_text s1) = 807"
            "length (splitSectionBySize (contextualText s1) ?opts) = 2"
    using tableDoc_sections by (auto simp: map_eq_Cons_conv)
  have mt: "maxTokens (withDefaults bakeOptions) = 400"
    by (simp add: withDefaults_def bakeOptions_def)
  have k: "map keyFields (fileChunks env bm (str ''f.md'', tableDoc)) =
      [(str ''f.md'', str ''intro'', None), (str ''f.md'', str ''b'', Some (str ''f.md:b'')), (str ''f.md'', str ''b'', Some (str ''f.md:b''))]"
    unfolding fileChunks_def keyFields_chunkMarkdownByMeaning
    by (simp add: secs keyFields_sectionChunks s0 s1 numeral_2_eq_2 mt str_def)
  then have len: "length (fileChunks env bm (str ''f.md'', tableDoc)) = 3"
    by (metis length_map length_Cons list.size(3) numeral_3_eq_3)
  have b: "batches BATCH (fileChunks env bm (str ''f.md'', tableDoc)) = [fileChunks env bm (str ''f.md'', tableDoc)]"
    using len by (subst batches.simps) (auto simp: BATCH_def batches.simps [of _ "[]"])
  have sn: "showNat 1 = str ''1''" "showNat 2 = str ''2''" by code_simp+
  have "map u_id (bakeRows env (str ''f.md'') (fileChunks env bm (str ''f.md'', tableDoc)) vs) =
     [sha1 env (str ''f.md:intro''), sha1 env (str ''f.md:b:1''), sha1 env (str ''f.md:b:2'')]"
    unfolding u_id_bakeRows k using sn by (simp add: enumerate_eq_zip str_def)
  with k b show ?thesis by simp
qed

subsection \<open>Replaying a list of upserts\<close>

lemma glast_None: "glast ka as k = None \<longleftrightarrow> k \<notin> ka ` set as"
  by (induction as) (auto split: option.splits)

lemma keys_gups:
  assumes "\<And>a x. kx (upd a x) = kx x" and "\<And>l a. kx (mk l a) = ka a"
  shows "kx ` set (gups kx ka upd mk l a) = insert (ka a) (kx ` set l)"
proof (cases "list_ex (\<lambda>x. kx x = ka a) l")
  case True
  then have "map kx (gups kx ka upd mk l a) = map kx l"
    by (simp add: gups_def assms(1))
  then have "kx ` set (gups kx ka upd mk l a) = kx ` set l"
    by (metis set_map)
  moreover have "ka a \<in> kx ` set l" using True by (force simp: list_ex_iff)
  ultimately show ?thesis by auto
next
  case False
  then show ?thesis by (simp add: gups_def assms(2))
qed

lemma keys_foldl_gups:
  assumes "\<And>a x. kx (upd a x) = kx x" and "\<And>l a. kx (mk l a) = ka a"
  shows "kx ` set (foldl (gups kx ka upd mk) l as) = kx ` set l \<union> ka ` set as"
proof (induction as arbitrary: l)
  case Nil
  show ?case by simp
next
  case (Cons a as)
  show ?case
    by (simp add: Cons.IH keys_gups [of kx upd mk ka, OF assms])
qed

lemma gups_saturated:
  assumes "\<And>a x. kx (upd a x) = kx x" and "\<And>a b x. upd a (upd b x) = upd a x"
    and "ka ` set as \<subseteq> kx ` set l"
  shows "foldl (gups kx ka upd mk) l as = map (gow kx ka upd as) l"
  using assms(3)
proof (induction as arbitrary: l)
  case Nil
  show ?case by (simp add: gow_def)
next
  case (Cons a as)
  let ?f = "\<lambda>x. if kx x = ka a then upd a x else x"
  have ex: "list_ex (\<lambda>x. kx x = ka a) l"
    using Cons.prems by (auto simp: list_ex_iff)
  then have g: "gups kx ka upd mk l a = map ?f l"
    by (simp add: gups_def)
  have "map kx (map ?f l) = map kx l"
    by (simp add: assms(1))
  then have "kx ` set (map ?f l) = kx ` set l"
    by (metis set_map)
  with Cons.prems have "ka ` set as \<subseteq> kx ` set (map ?f l)" by simp
  from Cons.IH [OF this]
  have "foldl (gups kx ka upd mk) (map ?f l) as = map (gow kx ka upd as) (map ?f l)" .
  moreover have "gow kx ka upd as (?f x) = gow kx ka upd (a # as) x" for x
    by (auto simp: gow_def assms(1,2) split: option.splits)
  ultimately show ?case
    by (simp add: g comp_def)
qed

lemma gups_untouched:
  assumes "\<And>a x. kx (upd a x) = kx x" and "\<And>l a. kx (mk l a) = ka a"
  shows "x \<in> set (foldl (gups kx ka upd mk) l as) \<Longrightarrow> kx x \<notin> ka ` set as \<Longrightarrow> x \<in> set l"
proof (induction as arbitrary: l)
  case Nil
  then show ?case by simp
next
  case (Cons a as)
  then have "x \<in> set (gups kx ka upd mk l a)" by simp
  moreover have "kx x \<noteq> ka a" using Cons.prems(2) by simp
  ultimately show ?case
    by (auto simp: gups_def assms split: if_splits)
qed

lemma gups_fresh:
  assumes "\<And>a x. kx (upd a x) = kx x" and "\<And>a b x. upd a (upd b x) = upd a x"
    and "\<And>l a. upd a (mk l a) = mk l a"
  shows "x \<in> set (gups kx ka upd mk l a) \<Longrightarrow> kx x = ka a \<Longrightarrow> upd a x = x"
  by (auto simp: gups_def assms list_ex_iff split: if_splits)

lemma gups_fixed:
  assumes "\<And>a x. kx (upd a x) = kx x" and "\<And>a b x. upd a (upd b x) = upd a x"
    and "\<And>l a. kx (mk l a) = ka a" and "\<And>l a. upd a (mk l a) = mk l a"
  shows "x \<in> set (foldl (gups kx ka upd mk) l as) \<Longrightarrow> gow kx ka upd as x = x"
proof (induction as arbitrary: l)
  case Nil
  show ?case by (simp add: gow_def)
next
  case (Cons a as)
  have x: "x \<in> set (foldl (gups kx ka upd mk) (gups kx ka upd mk l a) as)"
    using Cons.prems by simp
  show ?case
  proof (cases "glast ka as (kx x)")
    case (Some b)
    with Cons.IH [OF x] show ?thesis by (simp add: gow_def)
  next
    case None
    then have "kx x \<notin> ka ` set as" by (simp add: glast_None)
    from gups_untouched [of kx upd mk ka, OF assms(1,3) x this]
    have "x \<in> set (gups kx ka upd mk l a)" .
    from gups_fresh [of kx upd mk, OF assms(1,2,4) this] None
    show ?thesis by (auto simp: gow_def)
  qed
qed

lemma gups_replay:
  assumes "\<And>a x. kx (upd a x) = kx x" and "\<And>a b x. upd a (upd b x) = upd a x"
    and "\<And>l a. kx (mk l a) = ka a" and "\<And>l a. upd a (mk l a) = mk l a"
  shows "foldl (gups kx ka upd mk) (foldl (gups kx ka upd mk) l as) as =
         foldl (gups kx ka upd mk) l as"
proof -
  let ?l1 = "foldl (gups kx ka upd mk) l as"
  have "ka ` set as \<subseteq> kx ` set ?l1"
    using keys_foldl_gups [of kx upd mk ka l as, OF assms(1,3)] by simp
  from gups_saturated [of kx upd ka as ?l1 mk, OF assms(1,2) this]
  have "foldl (gups kx ka upd mk) ?l1 as = map (gow kx ka upd as) ?l1" .
  also have "\<dots> = ?l1"
    using gups_fixed [of kx upd mk ka _ l as, OF assms] by (simp add: map_idI)
  finally show ?thesis .
qed

lemma upsertChunkMeta_gups: "upsertChunkMeta t r = gups c_id u_id setData newRow t r"
  by (simp add: upsertChunkMeta_def gups_def setData_def newRow_def)

lemma writeVec_gups: "writeVec v a = gups fst fst (\<lambda>a x. (fst x, snd a)) (\<lambda>l a. a) v a"
proof (cases "list_ex (\<lambda>x. fst x = fst a) v")
  case True
  then have "filter (\<lambda>x. fst x = fst a) v \<noteq> []"
    by (simp add: filter_empty_conv list_ex_iff)
  moreover have "map (\<lambda>x. if fst x = fst a then (fst a, snd a) else x) v =
                 map (\<lambda>x. if fst x = fst a then (fst x, snd a) else x) v"
    by (rule map_cong) auto
  ultimately show ?thesis
    using True by (simp add: writeVec_def gups_def updateVec_def)
next
  case False
  then have "filter (\<lambda>x. fst x = fst a) v = []"
    by (simp add: filter_empty_conv list_ex_iff)
  moreover have "map (\<lambda>x. if fst x = fst a then (fst a, snd a) else x) v = v"
    using False by (intro map_idI) (auto simp: list_ex_iff)
  ultimately show ?thesis
    using False by (simp add: writeVec_def gups_def updateVec_def insertVec_def)
qed

lemma foldl_upsertChunkMeta_gups:
  "foldl upsertChunkMeta t rs = foldl (gups c_id u_id setData newRow) t rs"
proof -
  have "upsertChunkMeta = gups c_id u_id setData newRow"
    by (intro ext) (rule upsertChunkMeta_gups)
  then show ?thesis by simp
qed

lemma foldl_writeVec_gups:
  "foldl writeVec v ws = foldl (gups fst fst (\<lambda>a x. (fst x, snd a)) (\<lambda>l a. a)) v ws"
proof -
  have "writeVec = gups fst fst (\<lambda>a x. (fst x, snd a)) (\<lambda>l a. a)"
    by (intro ext) (rule writeVec_gups)
  then show ?thesis by simp
qed

lemma chunks_replay:
  "foldl upsertChunkMeta (foldl upsertChunkMeta t rs) rs = foldl upsertChunkMeta t rs"
  unfolding foldl_upsertChunkMeta_gups
  by (rule gups_replay) (simp_all add: setData_def newRow_def)

lemma vec_replay: "foldl writeVec (foldl writeVec v ws) ws = foldl writeVec v ws"
  unfolding foldl_writeVec_gups
  by (rule gups_replay) simp_all

lemma find_map_same:
  assumes "\<And>x. P (f x) = P x"
  shows "find P (map f l) = map_option f (find P l)"
  by (induction l) (simp_all add: assms)

lemma find_append_Some: "find P l = Some x \<Longrightarrow> find P (l @ l') = Some x"
  by (induction l) (auto split: if_splits)

lemma selectRid_stable:
  assumes "selectRid t i = Some k"
  shows "selectRid (upsertChunkMeta t r) i = Some k"
proof (cases "list_ex (\<lambda>x. c_id x = u_id r) t")
  case True
  let ?f = "\<lambda>x. if c_id x = u_id r then setData r x else x"
  have u: "upsertChunkMeta t r = map ?f t"
    using True by (simp add: upsertChunkMeta_def setData_def)
  have "find (\<lambda>x. c_id x = i) (map ?f t) = map_option ?f (find (\<lambda>x. c_id x = i) t)"
    by (rule find_map_same) (simp add: setData_def)
  then have "selectRid (upsertChunkMeta t r) i =
      map_option (\<lambda>x. rid (?f x)) (find (\<lambda>x. c_id x = i) t)"
    by (simp add: selectRid_def u option.map_comp comp_def)
  moreover have "(\<lambda>x. rid (?f x)) = rid"
    by (auto simp: setData_def fun_eq_iff)
  ultimately show ?thesis
    using assms by (simp add: selectRid_def)
next
  case False
  then show ?thesis
    using assms by (auto simp: selectRid_def upsertChunkMeta_def find_append_Some)
qed

lemma selectRid_stable_foldl:
  "selectRid t i = Some k \<Longrightarrow> selectRid (foldl upsertChunkMeta t rs) i = Some k"
  by (induction rs arbitrary: t) (simp_all add: selectRid_stable)

lemma selectRid_written: "\<exists>k. selectRid (upsertChunkMeta t r) (u_id r) = Some k"
proof (cases "list_ex (\<lambda>x. c_id x = u_id r) t")
  case True
  then obtain x where "x \<in> set t" "c_id x = u_id r" by (auto simp: list_ex_iff)
  then have "find (\<lambda>x. c_id x = u_id r) t \<noteq> None"
    by (auto simp: find_None_iff)
  then obtain y where "find (\<lambda>x. c_id x = u_id r) t = Some y" by auto
  then have "selectRid t (u_id r) = Some (rid y)" by (simp add: selectRid_def)
  from selectRid_stable [OF this] show ?thesis by blast
next
  case False
  then have "find (\<lambda>x. c_id x = u_id r) t = None"
    by (simp add: find_None_iff list_ex_iff)
  then show ?thesis
    using False by (simp add: selectRid_def upsertChunkMeta_def find_snoc)
qed

lemma upsertRow_put:
  "upsertRow n d r =
     (if length (u_embedding r) \<noteq> n then Inl (BadDim (length (u_embedding r)) n)
      else if vec_chunks d = None then Inl NoSuchTable
      else Inr (put d r))"
proof -
  obtain k where "selectRid (upsertChunkMeta (chunks d) r) (u_id r) = Some k"
    using selectRid_written by blast
  then show ?thesis
    by (auto simp: upsertRow_def put_def writeVec_def Let_def)
qed

lemma vec_chunks_put: "vec_chunks (put d r) \<noteq> None"
  by (simp add: put_def)

lemma vec_chunks_foldl_put: "vec_chunks d \<noteq> None \<Longrightarrow> vec_chunks (foldl put d rs) \<noteq> None"
proof (induction rs arbitrary: d)
  case Nil
  then show ?case by simp
next
  case (Cons r rs)
  from Cons.IH [OF vec_chunks_put [of d r]] show ?case by simp
qed

lemma upsertRows_put:
  "vec_chunks d \<noteq> None \<Longrightarrow>
   upsertRows n d rs = Inr d' \<longleftrightarrow> (\<forall>r \<in> set rs. length (u_embedding r) = n) \<and> d' = foldl put d rs"
proof (induction rs arbitrary: d)
  case Nil
  show ?case by auto
next
  case (Cons r rs)
  show ?case
  proof (cases "length (u_embedding r) = n")
    case True
    then have "upsertRow n d r = Inr (put d r)"
      using Cons.prems by (simp add: upsertRow_put)
    with Cons.IH [of "put d r"] True show ?thesis
      by (simp add: vec_chunks_put)
  next
    case False
    then show ?thesis by (simp add: upsertRow_put)
  qed
qed

lemma chunks_foldl_put: "chunks (foldl put d rs) = foldl upsertChunkMeta (chunks d) rs"
  by (induction rs arbitrary: d) (simp_all add: put_def)

lemma meta_dim_foldl_put: "meta_dim (foldl put d rs) = meta_dim d"
  by (induction rs arbitrary: d) (simp_all add: put_def)

lemma vec_foldl_put:
  "the (vec_chunks (foldl put d rs)) = foldl writeVec (the (vec_chunks d)) (writes (chunks d) rs)"
  by (induction rs arbitrary: d) (simp_all add: put_def)

lemma writes_final:
  "writes t rs =
     map (\<lambda>r. (the (selectRid (foldl upsertChunkMeta t rs) (u_id r)), u_embedding r)) rs"
proof (induction rs arbitrary: t)
  case Nil
  show ?case by simp
next
  case (Cons r rs)
  obtain k where k: "selectRid (upsertChunkMeta t r) (u_id r) = Some k"
    using selectRid_written by blast
  from selectRid_stable_foldl [OF k, of rs] k show ?case
    by (simp add: Cons.IH)
qed

lemma put_replay:
  assumes "vec_chunks d \<noteq> None"
  shows "foldl put (foldl put d rs) rs = foldl put d rs"
proof -
  let ?d1 = "foldl put d rs"
  have c: "chunks (foldl put ?d1 rs) = chunks ?d1"
    by (simp add: chunks_foldl_put chunks_replay)
  have w: "writes (chunks ?d1) rs = writes (chunks d) rs"
    by (simp add: writes_final chunks_foldl_put chunks_replay)
  have "the (vec_chunks (foldl put ?d1 rs)) = the (vec_chunks ?d1)"
    by (simp add: vec_foldl_put w vec_replay)
  moreover have "vec_chunks ?d1 \<noteq> None" "vec_chunks (foldl put ?d1 rs) \<noteq> None"
    using assms by (simp_all add: vec_chunks_foldl_put)
  ultimately have v: "vec_chunks (foldl put ?d1 rs) = vec_chunks ?d1"
    by (metis option.collapse)
  have m: "meta_dim (foldl put ?d1 rs) = meta_dim ?d1"
    by (simp add: meta_dim_foldl_put)
  show ?thesis
    using c v m by (intro DB.equality) simp_all
qed

subsection \<open>Running bake twice\<close>

lemma runBatches_append:
  "runBatches env st (xs @ ys) =
     (case runBatches env st xs of
        (Some e, st') \<Rightarrow> (Some e, st')
      | (None, st') \<Rightarrow> runBatches env st' ys)"
  by (induction xs arbitrary: st) (auto split: prod.splits option.splits)

lemma bakeBatches_runBatches:
  "bakeBatches env rel st bs = runBatches env st (map (\<lambda>b. (rel, b)) bs)"
  by (induction bs arbitrary: st) (auto split: prod.splits option.splits)

lemma batches_Nil: "batches n [] = []"
  by (subst batches.simps) simp

lemma bakeFile_runBatches:
  "bakeFile env bm st f =
     runBatches env st (map (\<lambda>b. (fst f, b)) (batches BATCH (fileChunks env bm f)))"
  by (simp add: bakeFile_def Let_def bakeBatches_runBatches batches_Nil)

lemma bakeFiles_runBatches:
  "bakeFiles env bm st files = runBatches env st (allBatches env bm files)"
proof (induction files arbitrary: st)
  case Nil
  show ?case by (simp add: allBatches_def)
next
  case (Cons f fs)
  have "allBatches env bm (f # fs) =
      map (\<lambda>b. (fst f, b)) (batches BATCH (fileChunks env bm f)) @ allBatches env bm fs"
    by (simp add: allBatches_def)
  moreover obtain res st' where
    r: "runBatches env st (map (\<lambda>b. (fst f, b)) (batches BATCH (fileChunks env bm f))) = (res, st')"
    by (cases "runBatches env st (map (\<lambda>b. (fst f, b)) (batches BATCH (fileChunks env bm f)))")
  ultimately show ?case
    by (cases res) (simp_all add: runBatches_append bakeFile_runBatches Cons.IH)
qed

lemma embedBatch_dim: "embedBatch env ts = Inr (vs, n) \<Longrightarrow> n \<noteq> 0"
  by (auto simp: embedBatch_def Let_def split: option.splits if_splits)

lemma upsertMany_ok:
  assumes "dim s = Some m" and "m \<noteq> 0" and "vec_chunks (db s) \<noteq> None"
    and "\<forall>r \<in> set rows. length (u_embedding r) = m"
  shows "upsertMany s rows = (None, s\<lparr>db := foldl put (db s) rows\<rparr>)"
proof -
  have g: "getDim s = (Inr m, s)"
    using assms(1,2) by (simp add: getDim_def)
  have "upsertRows m (db s) rows = Inr (foldl put (db s) rows)"
    using upsertRows_put [OF assms(3), of m rows "foldl put (db s) rows"] assms(4) by simp
  then show ?thesis
    using g assms(3) by (simp add: upsertMany_def)
qed

lemma upsertMany_bad:
  assumes "dim s = Some m" and "m \<noteq> 0" and "vec_chunks (db s) \<noteq> None"
    and "\<not> (\<forall>r \<in> set rows. length (u_embedding r) = m)"
  shows "fst (upsertMany s rows) \<noteq> None"
proof -
  have g: "getDim s = (Inr m, s)"
    using assms(1,2) by (simp add: getDim_def)
  have "\<And>d'. upsertRows m (db s) rows \<noteq> Inr d'"
    using upsertRows_put [OF assms(3), of m rows] assms(4) by blast
  then obtain e where "upsertRows m (db s) rows = Inl e"
    by (cases "upsertRows m (db s) rows") auto
  then show ?thesis
    using g assms(3) by (simp add: upsertMany_def)
qed

lemma bakeBatch_ready_ok:
  assumes "ready st m" and "batchOk env m b"
  shows "bakeBatch env (fst b) st (snd b) =
           (None, \<lparr>store = (store st)\<lparr>db := foldl put (db (store st)) (batchRows env b)\<rparr>,
                   total = total st + length (batchRows env b), dimSet = True\<rparr>)"
proof -
  from assms(2) obtain vs n where e: "embedBatch env (map chunk_text (snd b)) = Inr (vs, n)"
    by (auto simp: batchOk_def batchDim_def split: sum.splits)
  then have r: "batchRows env b = bakeRows env (fst b) (snd b) vs"
    by (simp add: batchRows_def)
  have d: "dimSet st" "dim (store st) = Some m" "m \<noteq> 0" "vec_chunks (db (store st)) \<noteq> None"
    using assms(1) by (simp_all add: ready_def)
  have "\<forall>r \<in> set (bakeRows env (fst b) (snd b) vs). length (u_embedding r) = m"
    using assms(2) r by (simp add: batchOk_def)
  from upsertMany_ok [OF d(2,3,4) this] show ?thesis
    using e d(1) r by (simp add: bakeBatch_def Let_def)
qed

lemma bakeBatch_ready_bad:
  assumes "ready st m" and "\<not> batchOk env m b"
  shows "fst (bakeBatch env (fst b) st (snd b)) \<noteq> None"
proof (cases "embedBatch env (map chunk_text (snd b))")
  case (Inl e)
  then show ?thesis by (simp add: bakeBatch_def)
next
  case (Inr p)
  obtain vs n where p: "p = (vs, n)" by (cases p)
  have r: "batchRows env b = bakeRows env (fst b) (snd b) vs" "batchDim env b = Some n"
    using Inr p by (simp_all add: batchRows_def batchDim_def)
  have d: "dimSet st" "dim (store st) = Some m" "m \<noteq> 0" "vec_chunks (db (store st)) \<noteq> None"
    using assms(1) by (simp_all add: ready_def)
  have "\<not> (\<forall>r \<in> set (bakeRows env (fst b) (snd b) vs). length (u_embedding r) = m)"
    using assms(2) r by (simp add: batchOk_def)
  from upsertMany_bad [OF d(2,3,4) this]
  obtain e s2 where "upsertMany (store st) (bakeRows env (fst b) (snd b) vs) = (Some e, s2)"
    by (cases "upsertMany (store st) (bakeRows env (fst b) (snd b) vs)") auto
  then show ?thesis
    using Inr p d(1) by (simp add: bakeBatch_def Let_def)
qed

lemma ready_after:
  assumes "ready st m"
  shows "ready \<lparr>store = (store st)\<lparr>db := foldl put (db (store st)) rs\<rparr>, total = t, dimSet = True\<rparr> m"
  using assms by (simp add: ready_def vec_chunks_foldl_put)

lemma runBatches_ready:
  assumes "ready st m"
  shows "(\<exists>st'. runBatches env st bs = (None, st') \<and> db (store st') = d') \<longleftrightarrow>
           (\<forall>b \<in> set bs. batchOk env m b) \<and>
           d' = foldl put (db (store st)) (concat (map (batchRows env) bs))"
  using assms
proof (induction bs arbitrary: st)
  case Nil
  show ?case by auto
next
  case (Cons b bs)
  let ?st1 = "\<lparr>store = (store st)\<lparr>db := foldl put (db (store st)) (batchRows env b)\<rparr>,
                total = total st + length (batchRows env b), dimSet = True\<rparr>"
  have r1: "ready ?st1 m" using Cons.prems by (rule ready_after)
  show ?case
  proof (cases "batchOk env m b")
    case True
    have "bakeBatch env (fst b) st (snd b) = (None, ?st1)"
      using Cons.prems True by (rule bakeBatch_ready_ok)
    with Cons.IH [OF r1] True show ?thesis by simp
  next
    case False
    from bakeBatch_ready_bad [OF Cons.prems False]
    obtain e st1 where "bakeBatch env (fst b) st (snd b) = (Some e, st1)"
      by (cases "bakeBatch env (fst b) st (snd b)") auto
    with False show ?thesis by simp
  qed
qed

lemma setDim_open:
  "meta_dim d = None \<or> meta_dim d = Some n \<Longrightarrow>
   setDim (openStore d) n = (None, \<lparr>db = prep d n, dim = Some n\<rparr>)"
  by (auto simp: setDim_def openStore_def prep_def split: option.splits)

lemma first_batch_ok:
  assumes "batchDim env b = Some n" and "meta_dim d = None \<or> meta_dim d = Some n"
    and "vec_chunks (prep d n) \<noteq> None" and "batchOk env n b"
  shows "bakeBatch env (fst b) (start d) (snd b) =
           (None, \<lparr>store = \<lparr>db = foldl put (prep d n) (batchRows env b), dim = Some n\<rparr>,
                   total = length (batchRows env b), dimSet = True\<rparr>)"
proof -
  from assms(1) obtain vs where e: "embedBatch env (map chunk_text (snd b)) = Inr (vs, n)"
    by (auto simp: batchDim_def split: sum.splits)
  then have r: "batchRows env b = bakeRows env (fst b) (snd b) vs"
    by (simp add: batchRows_def)
  have n0: "n \<noteq> 0" using e embedBatch_dim by blast
  let ?s1 = "\<lparr>db = prep d n, dim = Some n\<rparr>"
  have "\<forall>r \<in> set (bakeRows env (fst b) (snd b) vs). length (u_embedding r) = n"
    using assms(4) r by (simp add: batchOk_def)
  from upsertMany_ok [of ?s1 n, OF _ n0 _ this] assms(3)
  have "upsertMany ?s1 (bakeRows env (fst b) (snd b) vs) =
      (None, \<lparr>db = foldl put (prep d n) (bakeRows env (fst b) (snd b) vs), dim = Some n\<rparr>)"
    by simp
  then show ?thesis
    using e r setDim_open [OF assms(2)] by (simp add: bakeBatch_def start_def Let_def)
qed

lemma first_batch_success:
  assumes "bakeBatch env (fst b) (start d) (snd b) = (None, st')"
  shows "\<exists>n. batchDim env b = Some n \<and> (meta_dim d = None \<or> meta_dim d = Some n) \<and>
          vec_chunks (prep d n) \<noteq> None \<and> batchOk env n b \<and>
          st' = \<lparr>store = \<lparr>db = foldl put (prep d n) (batchRows env b), dim = Some n\<rparr>,
                 total = length (batchRows env b), dimSet = True\<rparr>"
proof (cases "embedBatch env (map chunk_text (snd b))")
  case (Inl e)
  then show ?thesis
    using assms by (simp add: bakeBatch_def)
next
  case (Inr p)
  obtain vs n where p: "p = (vs, n)" by (cases p)
  have n0: "n \<noteq> 0" using Inr p embedBatch_dim by blast
  have r: "batchRows env b = bakeRows env (fst b) (snd b) vs" and bd: "batchDim env b = Some n"
    using Inr p by (simp_all add: batchRows_def batchDim_def)
  have md: "meta_dim d = None \<or> meta_dim d = Some n"
  proof (rule ccontr)
    assume "\<not> ?thesis"
    then obtain v where "meta_dim d = Some v" "v \<noteq> n" by auto
    then have "setDim (openStore d) n = (Some (DimMismatch v n), openStore d)"
      by (simp add: setDim_def openStore_def)
    then show False
      using assms Inr p by (simp add: bakeBatch_def start_def)
  qed
  let ?s1 = "\<lparr>db = prep d n, dim = Some n\<rparr>"
  have run: "fst (bakeBatch env (fst b) (start d) (snd b)) =
      fst (upsertMany ?s1 (bakeRows env (fst b) (snd b) vs))"
    using Inr p setDim_open [OF md]
    by (simp add: bakeBatch_def start_def Let_def split: prod.splits option.splits)
  have vp: "vec_chunks (prep d n) \<noteq> None"
  proof
    assume vn: "vec_chunks (prep d n) = None"
    have "getDim ?s1 = (Inr n, ?s1)" using n0 by (simp add: getDim_def)
    then have "upsertMany ?s1 (bakeRows env (fst b) (snd b) vs) = (Some NoSuchTable, ?s1)"
      using vn by (simp add: upsertMany_def)
    with run assms show False by simp
  qed
  have ok: "batchOk env n b"
  proof (rule ccontr)
    assume "\<not> batchOk env n b"
    then have "\<not> (\<forall>r \<in> set (bakeRows env (fst b) (snd b) vs). length (u_embedding r) = n)"
      using r bd by (simp add: batchOk_def)
    from upsertMany_bad [of ?s1 n, OF _ n0 _ this] vp
    have "fst (upsertMany ?s1 (bakeRows env (fst b) (snd b) vs)) \<noteq> None" by simp
    with run assms show False by simp
  qed
  from first_batch_ok [OF bd md vp ok] assms bd md vp ok show ?thesis by auto
qed

lemma prep_same: "meta_dim d = Some n \<Longrightarrow> prep d n = d"
  by (simp add: prep_def)

lemma meta_dim_prep: "meta_dim d = None \<or> meta_dim d = Some n \<Longrightarrow> meta_dim (prep d n) = Some n"
  by (auto simp: prep_def)

text \<open>
  C4. The chunks of a file, their ids and their metadata are functions of the file, so both
  runs hand the same rows to the store. When a run of \<open>bake\<close> on a set of documents succeeds
  and leaves the database \<open>d1\<close>, a second run on \<open>d1\<close> and the same documents succeeds and
  leaves \<open>d1\<close> again: the same chunk records under the same row ids, with the same
  metadata, and no record more. The embedding routes are functions of the texts here.
\<close>

theorem bake_twice_idempotent:
  assumes "bake env bm d files = (None, d1)"
  shows "bake env bm d1 files = (None, d1)"
proof (cases "allBatches env bm files")
  case Nil
  then show ?thesis
    using assms by (auto simp: bake_def bakeFiles_runBatches openStore_def)
next
  case (Cons b bs)
  from assms obtain stf where run: "runBatches env (start d) (b # bs) = (None, stf)"
    and d1: "d1 = db (store stf)"
    by (auto simp: bake_def bakeFiles_runBatches Cons start_def split: prod.splits)
  from run obtain st1 where b1: "bakeBatch env (fst b) (start d) (snd b) = (None, st1)"
    and rest: "runBatches env st1 bs = (None, stf)"
    by (auto split: prod.splits option.splits)
  from first_batch_success [OF b1] obtain n where n: "batchDim env b = Some n"
    and md: "meta_dim d = None \<or> meta_dim d = Some n"
    and vp: "vec_chunks (prep d n) \<noteq> None" and ok: "batchOk env n b"
    and st1: "st1 = \<lparr>store = \<lparr>db = foldl put (prep d n) (batchRows env b), dim = Some n\<rparr>,
                     total = length (batchRows env b), dimSet = True\<rparr>"
    by auto
  have n0: "n \<noteq> 0"
    using n embedBatch_dim by (auto simp: batchDim_def split: sum.splits)
  have r1: "ready st1 n"
    using n0 vp by (simp add: ready_def st1 vec_chunks_foldl_put)
  let ?R = "concat (map (batchRows env) (b # bs))"
  from runBatches_ready [OF r1, of env bs d1] rest d1
  have oks: "\<forall>b \<in> set bs. batchOk env n b"
    and d1': "d1 = foldl put (prep d n) ?R"
    by (auto simp: st1)
  have m1: "meta_dim d1 = Some n"
    by (simp add: d1' meta_dim_foldl_put meta_dim_prep [OF md])
  have v1: "vec_chunks d1 \<noteq> None"
    unfolding d1' using vp by (rule vec_chunks_foldl_put)
  let ?st1' = "\<lparr>store = \<lparr>db = foldl put d1 (batchRows env b), dim = Some n\<rparr>,
                 total = length (batchRows env b), dimSet = True\<rparr>"
  have b1': "bakeBatch env (fst b) (start d1) (snd b) = (None, ?st1')"
    using first_batch_ok [of env b n d1] n m1 v1 ok by (simp add: prep_same)
  have r1': "ready ?st1' n"
    using n0 v1 by (simp add: ready_def vec_chunks_foldl_put)
  have "foldl put d1 ?R = d1"
    unfolding d1' using vp by (rule put_replay)
  then have "d1 = foldl put (db (store ?st1')) (concat (map (batchRows env) bs))"
    by simp
  with runBatches_ready [OF r1', of env bs d1] oks
  obtain stf' where "runBatches env ?st1' bs = (None, stf')" "db (store stf') = d1"
    by blast
  with b1' have "runBatches env (start d1) (b # bs) = (None, stf')" by simp
  then show ?thesis
    using \<open>db (store stf') = d1\<close> by (simp add: bake_def bakeFiles_runBatches Cons start_def)
qed

theorem bake_twice_idempotent_witness:
  "bake \<lparr>sha1 = (\<lambda>s. (str ''#'') @ s), JSON_stringify = (\<lambda>m. section_path m),
         embedViaOllama = (\<lambda>ts. Some (map (\<lambda>t. [1, 0]) ts)),
         embedViaOpenAI = (\<lambda>ts. None), preferNative = True,
         extractEntities = (\<lambda>s. []), extractConcepts = (\<lambda>s. [])\<rparr>
     \<lparr>universe = None, species = None, subspecies = None\<rparr>
     \<lparr>meta_dim = None, chunks = [], vec_chunks = None\<rparr>
     [(str ''f.md'', str ''hello'' @ [LF] @ str ''## B'' @ [LF] @ str ''world'')] =
   (None,
     \<lparr>meta_dim = Some 2,
      chunks = [\<lparr>rid = 1, c_id = str ''#f.md:intro'', c_path = str ''f.md'', c_chunk = str ''hello'',
                 c_sha = str ''#f.md:hello'', c_metadata = Some (str ''intro'')\<rparr>,
                \<lparr>rid = 2, c_id = str ''#f.md:b'', c_path = str ''f.md'', c_chunk = str ''B'' @ [LF, LF] @ str ''world'',
                 c_sha = str ''#f.md:B'' @ [LF, LF] @ str ''world'', c_metadata = Some (str ''b'')\<rparr>],
      vec_chunks = Some [(1, [1, 0]), (2, [1, 0])]\<rparr>) \<and>
   bake \<lparr>sha1 = (\<lambda>s. (str ''#'') @ s), JSON_stringify = (\<lambda>m. section_path m),
         embedViaOllama = (\<lambda>ts. Some (map (\<lambda>t. [1, 0]) ts)),
         embedViaOpenAI = (\<lambda>ts. None), preferNative = True,
         extractEntities = (\<lambda>s. []), extractConcepts = (\<lambda>s. [])\<rparr>
     \<lparr>universe = None, species = None, subspecies = None\<rparr>
     \<lparr>meta_dim = Some 2,
      chunks = [\<lparr>rid = 1, c_id = str ''#f.md:intro'', c_path = str ''f.md'', c_chunk = str ''hello'',
                 c_sha = str ''#f.md:hello'', c_metadata = Some (str ''intro'')\<rparr>,
                \<lparr>rid = 2, c_id = str ''#f.md:b'', c_path = str ''f.md'', c_chunk = str ''B'' @ [LF, LF] @ str ''world'',
                 c_sha = str ''#f.md:B'' @ [LF, LF] @ str ''world'', c_metadata = Some (str ''b'')\<rparr>],
      vec_chunks = Some [(1, [1, 0]), (2, [1, 0])]\<rparr>
     [(str ''f.md'', str ''hello'' @ [LF] @ str ''## B'' @ [LF] @ str ''world'')] =
   (None,
     \<lparr>meta_dim = Some 2,
      chunks = [\<lparr>rid = 1, c_id = str ''#f.md:intro'', c_path = str ''f.md'', c_chunk = str ''hello'',
                 c_sha = str ''#f.md:hello'', c_metadata = Some (str ''intro'')\<rparr>,
                \<lparr>rid = 2, c_id = str ''#f.md:b'', c_path = str ''f.md'', c_chunk = str ''B'' @ [LF, LF] @ str ''world'',
                 c_sha = str ''#f.md:B'' @ [LF, LF] @ str ''world'', c_metadata = Some (str ''b'')\<rparr>],
      vec_chunks = Some [(1, [1, 0]), (2, [1, 0])]\<rparr>)"
proof -
  let ?env = "\<lparr>sha1 = (\<lambda>s. (str ''#'') @ s), JSON_stringify = (\<lambda>m. section_path m),
         embedViaOllama = (\<lambda>ts. Some (map (\<lambda>t. [1, 0]) ts)),
         embedViaOpenAI = (\<lambda>ts. None), preferNative = True,
         extractEntities = (\<lambda>s. []), extractConcepts = (\<lambda>s. [])\<rparr>"
  let ?bm = "\<lparr>universe = None, species = None, subspecies = None\<rparr>"
  let ?files = "[(str ''f.md'', str ''hello'' @ [LF] @ str ''## B'' @ [LF] @ str ''world'')]"
  let ?d1 = "\<lparr>meta_dim = Some 2,
      chunks = [\<lparr>rid = 1, c_id = str ''#f.md:intro'', c_path = str ''f.md'', c_chunk = str ''hello'',
                 c_sha = str ''#f.md:hello'', c_metadata = Some (str ''intro'')\<rparr>,
                \<lparr>rid = 2, c_id = str ''#f.md:b'', c_path = str ''f.md'', c_chunk = str ''B'' @ [LF, LF] @ str ''world'',
                 c_sha = str ''#f.md:B'' @ [LF, LF] @ str ''world'', c_metadata = Some (str ''b'')\<rparr>],
      vec_chunks = Some [(1, [1, 0]), (2, [1, 0])]\<rparr>"
  have first: "bake ?env ?bm \<lparr>meta_dim = None, chunks = [], vec_chunks = None\<rparr> ?files = (None, ?d1)"
    by code_simp
  from first bake_twice_idempotent [OF first] show ?thesis by (rule conjI)
qed

end
